theory Spec2Isabelle
  imports Main "HOL-Library.AList"
begin

text \<open>
  A model of the Elasticsearch backend of pygeobox
  (\<open>pygeobox/api/backend/elastic.py\<close>) and of the import of its environment module
  (\<open>pygeobox/env.py\<close>), with the properties of both that are proved below. The
  first part holds the definitions, each next to the code it stands for; the second
  part the lemmas and theorems.
\<close>

section \<open>Index names: \<open>ElasticBackend.es_id\<close>\<close>

text \<open>
  \<^verbatim>\<open>return collection_id.lower().replace(':', '-')\<close>

  Strings are lists of 8-bit characters. \<open>lower\<close> maps the ASCII capitals to
  their small letters and leaves every other character as it is (Python's
  \<open>str.lower\<close> restricted to ASCII identifiers); \<open>replace\<close> of one
  character by another is a map over the string.
\<close>

definition lower_char :: "char \<Rightarrow> char" where
  "lower_char c =
     (let n = (of_char c :: nat)
      in if 65 \<le> n \<and> n \<le> 90 then char_of (n + 32) else c)"

definition lower :: "string \<Rightarrow> string" where
  "lower s = map lower_char s"

definition replace_char :: "char \<Rightarrow> char \<Rightarrow> string \<Rightarrow> string" where
  "replace_char old new s = map (\<lambda>c. if c = old then new else c) s"

definition es_id :: "string \<Rightarrow> string" where
  "es_id collection_id = replace_char CHR '':'' CHR ''-'' (lower collection_id)"

section \<open>Python values, dicts and the caller's heap\<close>

text \<open>
  The items handed to \<open>upsert_collection_items\<close> are Python dicts, which the
  generator \<open>gendata\<close> mutates in place. Dicts therefore live in a heap, addressed
  by \<open>PRef\<close>; a dict is an association list in insertion order
  (\<open>AList.update\<close> overwrites in place or appends, as a Python dict does).
  \<open>PTime t\<close> stands for a timestamp (a datetime or an ISO-8601 text), identified
  with the instant it denotes, in seconds.
\<close>

type_synonym addr = nat

datatype pyval =
    PNone
  | PBool bool
  | PInt int
  | PStr string
  | PTime int
  | PList "pyval list"
  | PRef addr

type_synonym pydict = "(string \<times> pyval) list"

type_synonym heap = "addr \<Rightarrow> pydict option"

text \<open>
  Exceptions are values. \<open>RuntimeError msg ctx\<close> carries its message and the
  exception that was being handled when it was raised (Python's implicit exception
  context), if any. \<open>NotFoundError\<close> and \<open>RequestError\<close> are the engine
  client's exceptions; the others are Python's own.
\<close>

datatype error =
    RuntimeError string "error option"
  | KeyError string
  | TypeError string
  | NotFoundError string
  | RequestError string
  | EnvironmentError string
  | AttributeError string
  | ValueError string

definition quoted :: "string \<Rightarrow> string" where
  "quoted s = [CHR 0x27] @ s @ [CHR 0x27]"

fun str_error :: "error \<Rightarrow> string" where
  "str_error (RuntimeError m c) = m"
| "str_error (KeyError k) = quoted k"
| "str_error (TypeError m) = m"
| "str_error (NotFoundError m) = m"
| "str_error (RequestError m) = m"
| "str_error (EnvironmentError m) = m"
| "str_error (AttributeError m) = m"
| "str_error (ValueError m) = m"

text \<open>\<open>obj[key]\<close> for a string key: only a dict can be read that way.\<close>

definition getitem :: "heap \<Rightarrow> pyval \<Rightarrow> string \<Rightarrow> error + pyval" where
  "getitem h obj key =
     (case obj of
        PRef a \<Rightarrow>
          (case h a of
             None \<Rightarrow> Inl (TypeError ''object is not subscriptable'')
           | Some d \<Rightarrow>
               (case map_of d key of
                  None \<Rightarrow> Inl (KeyError key)
                | Some v \<Rightarrow> Inr v))
      | _ \<Rightarrow> Inl (TypeError ''object is not subscriptable''))"

text \<open>\<open>obj[key] = v\<close> for a string key: only a dict can be written that way.\<close>

definition setitem :: "heap \<Rightarrow> pyval \<Rightarrow> string \<Rightarrow> pyval \<Rightarrow> error + heap" where
  "setitem h obj key v =
     (case obj of
        PRef a \<Rightarrow>
          (case h a of
             None \<Rightarrow> Inl (TypeError ''object does not support item assignment'')
           | Some d \<Rightarrow> Inr (h(a \<mapsto> AList.update key v d)))
      | _ \<Rightarrow> Inl (TypeError ''object does not support item assignment''))"

section \<open>The search engine behind \<open>self.conn\<close>\<close>

text \<open>
  The engine is a document store: a list of named indices, each with the body it was
  created with and its documents by id. A document body is the JSON text of a Python
  value; it is kept as that value together with the heap it was serialised from, so a
  later change of the caller's dicts does not reach it. Every call of the client is
  recorded in \<open>conn_requests\<close>, in order.
\<close>

datatype json =
    JBool bool
  | JInt int
  | JStr string
  | JObj "(string \<times> json) list"

datatype document = Document heap pyval

fun lookup_path :: "heap \<Rightarrow> pyval \<Rightarrow> string list \<Rightarrow> pyval option" where
  "lookup_path h v [] = Some v"
| "lookup_path h v (k # ks) =
     (case v of
        PRef a \<Rightarrow>
          (case h a of
             None \<Rightarrow> None
           | Some d \<Rightarrow>
               (case map_of d k of
                  None \<Rightarrow> None
                | Some w \<Rightarrow> lookup_path h w ks))
      | _ \<Rightarrow> None)"

fun split_on :: "char \<Rightarrow> string \<Rightarrow> string list" where
  "split_on c [] = [[]]"
| "split_on c (x # xs) =
     (if x = c then [] # split_on c xs
      else (case split_on c xs of
              [] \<Rightarrow> [[x]]
            | w # ws \<Rightarrow> (x # w) # ws))"

text \<open>The value of a dotted field such as \<open>properties.resultTime\<close> in a document.\<close>

fun doc_field :: "document \<Rightarrow> string \<Rightarrow> pyval option" where
  "doc_field (Document h root) path = lookup_path h root (split_on CHR ''.'' path)"

record index =
  idx_body :: "json option"
  idx_docs :: "pyval \<Rightarrow> document option"

record action =
  act_index :: string
  act_id :: pyval
  act_source :: document

datatype query =
    RangeLte string int
  | BoolShould "query list"

text \<open>
  A \<open>range\<close> clause with \<open>lte\<close> matches a document whose field is a timestamp
  not later than the bound; a \<open>bool\<close> query with only \<open>should\<close> clauses matches
  a document that matches at least one of them.
\<close>

fun matches :: "document \<Rightarrow> query \<Rightarrow> bool" where
  "matches d (RangeLte field bound) =
     (case doc_field d field of
        Some (PTime t) \<Rightarrow> t \<le> bound
      | _ \<Rightarrow> False)"
| "matches d (BoolShould qs) = (\<exists>q \<in> set qs. matches d q)"

datatype request =
    IndicesExists string
  | IndicesCreate string json
  | IndicesDelete string
  | IndicesGet string
  | Bulk "action list"
  | Delete string string
  | DeleteByQuery string query

datatype level = WARNING | ERROR

text \<open>
  The state the backend works on: the engine's indices and the requests it has
  received, the records logged at warning level or above, and the clock (the
  \<open>n\<close>-th reading of the current time is \<open>clock n\<close>).
\<close>

record backend =
  conn_indices :: "(string \<times> index) list"
  conn_requests :: "request list"
  logged :: "(level \<times> string) list"
  clock :: "nat \<Rightarrow> int"
  clock_reads :: nat

definition sent :: "request \<Rightarrow> backend \<Rightarrow> backend" where
  "sent r s = s\<lparr>conn_requests := conn_requests s @ [r]\<rparr>"

definition log_record :: "level \<Rightarrow> string \<Rightarrow> backend \<Rightarrow> backend" where
  "log_record l msg s = s\<lparr>logged := logged s @ [(l, msg)]\<rparr>"

text \<open>\<open>conn.indices.exists(name)\<close>\<close>

definition indices_exists :: "backend \<Rightarrow> string \<Rightarrow> bool \<times> backend" where
  "indices_exists s name =
     (map_of (conn_indices s) name \<noteq> None, sent (IndicesExists name) s)"

text \<open>\<open>conn.indices.create(index=name, body=body)\<close>\<close>

definition indices_create :: "backend \<Rightarrow> string \<Rightarrow> json \<Rightarrow> (error + unit) \<times> backend" where
  "indices_create s name body =
     (let s1 = sent (IndicesCreate name body) s
      in if map_of (conn_indices s) name \<noteq> None
         then (Inl (RequestError ''resource_already_exists_exception''), s1)
         else (Inr (),
               s1\<lparr>conn_indices :=
                    AList.update name \<lparr>idx_body = Some body, idx_docs = Map.empty\<rparr>
                      (conn_indices s)\<rparr>))"

text \<open>\<open>conn.indices.delete(index=name)\<close>\<close>

definition indices_delete :: "backend \<Rightarrow> string \<Rightarrow> (error + unit) \<times> backend" where
  "indices_delete s name =
     (let s1 = sent (IndicesDelete name) s
      in if map_of (conn_indices s) name = None
         then (Inl (NotFoundError ''index_not_found_exception''), s1)
         else (Inr (), s1\<lparr>conn_indices := AList.delete name (conn_indices s)\<rparr>))"

text \<open>\<open>conn.indices.get('*').keys()\<close>: the names of all indices.\<close>

definition indices_get_all :: "backend \<Rightarrow> string list \<times> backend" where
  "indices_get_all s = (map fst (conn_indices s), sent (IndicesGet ''*'') s)"

text \<open>
  One \<open>index\<close> action of a bulk request: the document is stored under its id,
  replacing an earlier one; an index that does not exist is created without a body.
\<close>

definition write_doc :: "action \<Rightarrow> (string \<times> index) list \<Rightarrow> (string \<times> index) list" where
  "write_doc a idxs =
     (case map_of idxs (act_index a) of
        None \<Rightarrow>
          AList.update (act_index a)
            \<lparr>idx_body = None, idx_docs = [act_id a \<mapsto> act_source a]\<rparr> idxs
      | Some ix \<Rightarrow>
          AList.update (act_index a)
            (ix\<lparr>idx_docs := (idx_docs ix)(act_id a \<mapsto> act_source a)\<rparr>) idxs)"

definition conn_bulk :: "backend \<Rightarrow> action list \<Rightarrow> backend" where
  "conn_bulk s acts =
     sent (Bulk acts) (s\<lparr>conn_indices := fold write_doc acts (conn_indices s)\<rparr>)"

text \<open>\<open>conn.delete(index=name, id=doc_id)\<close>: a missing index or document is a 404.\<close>

definition conn_delete :: "backend \<Rightarrow> string \<Rightarrow> string \<Rightarrow> (error + unit) \<times> backend" where
  "conn_delete s name doc_id =
     (let s1 = sent (Delete name doc_id) s
      in case map_of (conn_indices s) name of
           None \<Rightarrow> (Inl (NotFoundError ''index_not_found_exception''), s1)
         | Some ix \<Rightarrow>
             (case idx_docs ix (PStr doc_id) of
                None \<Rightarrow> (Inl (NotFoundError ''not_found''), s1)
              | Some d \<Rightarrow>
                  (Inr (),
                   s1\<lparr>conn_indices :=
                        AList.update name (ix\<lparr>idx_docs := (idx_docs ix)(PStr doc_id := None)\<rparr>)
                          (conn_indices s)\<rparr>)))"

text \<open>\<open>conn.delete_by_query(index=name, body={'query': q})\<close>\<close>

definition purge :: "query \<Rightarrow> index \<Rightarrow> index" where
  "purge q ix =
     ix\<lparr>idx_docs :=
          (\<lambda>k. case idx_docs ix k of
                  None \<Rightarrow> None
                | Some d \<Rightarrow> if matches d q then None else Some d)\<rparr>"

definition conn_delete_by_query :: "backend \<Rightarrow> string \<Rightarrow> query \<Rightarrow> (error + unit) \<times> backend" where
  "conn_delete_by_query s name q =
     (let s1 = sent (DeleteByQuery name q) s
      in case map_of (conn_indices s) name of
           None \<Rightarrow> (Inl (NotFoundError ''index_not_found_exception''), s1)
         | Some ix \<Rightarrow>
             (Inr (), s1\<lparr>conn_indices := AList.update name (purge q ix) (conn_indices s)\<rparr>))"

section \<open>The backend: \<open>ElasticBackend\<close>\<close>

text \<open>The default index settings, \<open>SETTINGS\<close>.\<close>

definition raw_keyword :: json where
  "raw_keyword = JObj [(''raw'', JObj [(''type'', JStr ''keyword'')])]"

definition SETTINGS :: json where
  "SETTINGS =
     JObj [
       (''settings'', JObj [
          (''number_of_shards'', JInt 1),
          (''number_of_replicas'', JInt 0)]),
       (''mappings'', JObj [
          (''properties'', JObj [
             (''geometry'', JObj [(''type'', JStr ''geo_shape'')]),
             (''reportId'', JObj [(''type'', JStr ''text''), (''fields'', raw_keyword)]),
             (''properties'', JObj [
                (''properties'', JObj [
                   (''resultTime'', JObj [(''type'', JStr ''date''), (''fields'', raw_keyword)]),
                   (''pubTime'', JObj [(''type'', JStr ''date''), (''fields'', raw_keyword)]),
                   (''phenomenonTime'', JObj [(''type'', JStr ''text'')]),
                   (''wigos_station_identifier'',
                      JObj [(''type'', JStr ''text''), (''fields'', raw_keyword)]),
                   (''value'', JObj [(''type'', JStr ''float''), (''coerce'', JBool True)]),
                   (''metadata'', JObj [
                      (''properties'', JObj [
                         (''value'',
                            JObj [(''type'', JStr ''float''), (''coerce'', JBool True)])])])])])])])]"

definition has_collection :: "backend \<Rightarrow> string \<Rightarrow> bool \<times> backend" where
  "has_collection s collection_id =
     (let es_index = es_id collection_id
      in indices_exists s es_index)"

definition add_collection :: "backend \<Rightarrow> string \<Rightarrow> (error + bool) \<times> backend" where
  "add_collection s collection_id =
     (let es_index = es_id collection_id;
          (exists, s1) = has_collection s collection_id
      in if exists
         then (let msg = ''index '' @ es_index @ '' exists''
               in (Inl (RuntimeError msg None), log_record ERROR msg s1))
         else (case indices_create s1 es_index SETTINGS of
                 (Inl err, s2) \<Rightarrow> (Inl err, s2)
               | (Inr u, s2) \<Rightarrow>
                   (let (b, s3) = has_collection s2 collection_id
                    in (Inr b, s3))))"

definition delete_collection :: "backend \<Rightarrow> string \<Rightarrow> (error + bool) \<times> backend" where
  "delete_collection s collection_id =
     (let es_index = es_id collection_id;
          (exists, s1) = has_collection s collection_id
      in if \<not> exists
         then (let msg = ''index '' @ es_index @ '' does not exist''
               in (Inl (RuntimeError msg None), log_record ERROR msg s1))
         else (let (still, s2) = indices_exists s1 es_index
               in case (if still then indices_delete s2 es_index else (Inr (), s2)) of
                    (Inl err, s3) \<Rightarrow> (Inl err, s3)
                  | (Inr u, s3) \<Rightarrow>
                      (let (b, s4) = has_collection s3 collection_id
                       in (Inr (\<not> b), s4))))"

text \<open>
  One step of the generator \<open>gendata\<close>, for one feature:
  \<^verbatim>\<open>
  feature['properties']['id'] = feature['id']
  yield {'_index': es_index, '_id': feature['id'], '_source': feature}
  \<close>
  The right-hand side of the assignment is read first. \<open>helpers.bulk\<close> serialises
  an action as soon as it is yielded, hence the document is the feature in the heap of
  that moment.
\<close>

definition gendata_step :: "string \<Rightarrow> heap \<Rightarrow> pyval \<Rightarrow> error + (action \<times> heap)" where
  "gendata_step es_index h feature =
     (case getitem h feature ''id'' of
        Inl e \<Rightarrow> Inl e
      | Inr v \<Rightarrow>
          (case getitem h feature ''properties'' of
             Inl e \<Rightarrow> Inl e
           | Inr p \<Rightarrow>
               (case setitem h p ''id'' v of
                  Inl e \<Rightarrow> Inl e
                | Inr h1 \<Rightarrow>
                    (case getitem h1 feature ''id'' of
                       Inl e \<Rightarrow> Inl e
                     | Inr i \<Rightarrow>
                         Inr (\<lparr>act_index = es_index, act_id = i,
                                act_source = Document h1 feature\<rparr>, h1)))))"

text \<open>
  \<open>helpers.bulk(self.conn, gendata(items))\<close>: the actions are drawn from the
  generator one at a time and sent in chunks of \<open>chunk_size\<close>; a full chunk is sent
  when the next action arrives, the last one when the generator ends. An exception of
  the generator ends the call; the chunk then pending is not sent. The limit on the
  bytes of a chunk is not modelled.
\<close>

definition chunk_size :: nat where
  "chunk_size = 500"

fun bulk_gendata ::
  "string \<Rightarrow> backend \<Rightarrow> heap \<Rightarrow> action list \<Rightarrow> pyval list \<Rightarrow> (error + unit) \<times> backend \<times> heap"
where
  "bulk_gendata es_index s h pending [] =
     (if pending = [] then (Inr (), s, h) else (Inr (), conn_bulk s pending, h))"
| "bulk_gendata es_index s h pending (feature # features) =
     (case gendata_step es_index h feature of
        Inl e \<Rightarrow> (Inl e, s, h)
      | Inr (a, h1) \<Rightarrow>
          (if pending \<noteq> [] \<and> length pending = chunk_size
           then bulk_gendata es_index (conn_bulk s pending) h1 [a] features
           else bulk_gendata es_index s h1 (pending @ [a]) features))"

definition upsert_collection_items ::
  "backend \<Rightarrow> heap \<Rightarrow> string \<Rightarrow> pyval list \<Rightarrow> (error + unit) \<times> backend \<times> heap"
where
  "upsert_collection_items s h collection_id items =
     (let es_index = es_id collection_id;
          (exists, s1) = has_collection s collection_id
      in if \<not> exists
         then (case add_collection
                      (log_record WARNING (''Index '' @ es_index @ '' does not exist.  Creating'') s1)
                      es_index of
                 (Inl err, s2) \<Rightarrow> (Inl err, s2, h)
               | (Inr b, s2) \<Rightarrow> bulk_gendata es_index s2 h [] items)
         else bulk_gendata es_index s1 h [] items)"

definition delete_collection_item :: "backend \<Rightarrow> string \<Rightarrow> string \<Rightarrow> (error + bool) \<times> backend" where
  "delete_collection_item s collection_id item_id =
     (case conn_delete s collection_id item_id of
        (Inl err, s1) \<Rightarrow>
          (let msg = ''Item deletion failed: '' @ str_error err
           in (Inl (RuntimeError msg (Some err)), log_record ERROR msg s1))
      | (Inr u, s1) \<Rightarrow> (Inr True, s1))"

text \<open>
  Modelled from the spec: \<open>pygeobox.util.datetime_days_ago\<close> is not among the
  sources. The spec gives the threshold as the current time minus \<open>days\<close>; the model
  reads the clock once and subtracts \<open>days\<close> days, in seconds.
\<close>

definition datetime_days_ago :: "backend \<Rightarrow> int \<Rightarrow> int \<times> backend" where
  "datetime_days_ago s days =
     (clock s (clock_reads s) - days * 86400, s\<lparr>clock_reads := Suc (clock_reads s)\<rparr>)"

definition query_by_date :: "int \<Rightarrow> query" where
  "query_by_date before =
     BoolShould [RangeLte ''properties.resultTime'' before,
                 RangeLte ''properties.pubTime'' before]"

text \<open>The loop \<open>for index in indices: self.conn.delete_by_query(...)\<close>.\<close>

fun delete_by_query_all :: "query \<Rightarrow> backend \<Rightarrow> string list \<Rightarrow> (error + unit) \<times> backend" where
  "delete_by_query_all q s [] = (Inr (), s)"
| "delete_by_query_all q s (name # names) =
     (case conn_delete_by_query s name q of
        (Inl err, s1) \<Rightarrow> (Inl err, s1)
      | (Inr u, s1) \<Rightarrow> delete_by_query_all q s1 names)"

definition delete_collections_by_retention :: "backend \<Rightarrow> int \<Rightarrow> (error + unit) \<times> backend" where
  "delete_collections_by_retention s days =
     (let (indices, s1) = indices_get_all s;
          (before, s2) = datetime_days_ago s1 days
      in delete_by_query_all (query_by_date before) s2 indices)"

section \<open>Importing the module \<open>pygeobox.env\<close>\<close>

text \<open>
  The module body of \<open>env.py\<close> runs on import. It reads \<open>os.environ\<close>, binds the
  module-level names and then checks the required variables. The model keeps the
  module namespace (what \<open>locals()\<close> returns at module level) as an association
  list in insertion order, and returns it, or the exception that ends the import.
  Records written to the logger are not part of the result. \<open>OPath\<close> holds the
  segments a \<open>pathlib.Path\<close> was built from; \<open>OOpaque\<close> stands for a module,
  function or other object that is neither \<open>None\<close> nor a string.
\<close>

type_synonym environ = "string \<Rightarrow> string option"

datatype pyobj =
    ONone
  | OStr string
  | OInt int
  | OPath "string list"
  | OList "pyobj list"
  | OOpaque

type_synonym namespace = "(string \<times> pyobj) list"

text \<open>\<open>os.environ.get(name)\<close> and \<open>os.environ.get(name, dflt)\<close>\<close>

definition environ_get :: "environ \<Rightarrow> string \<Rightarrow> pyobj" where
  "environ_get env name = (case env name of None \<Rightarrow> ONone | Some v \<Rightarrow> OStr v)"

definition environ_get_default :: "environ \<Rightarrow> string \<Rightarrow> string \<Rightarrow> pyobj" where
  "environ_get_default env name dflt = (case env name of None \<Rightarrow> OStr dflt | Some v \<Rightarrow> OStr v)"

text \<open>\<open>s.rstrip(c)\<close> for a single character \<open>c\<close>.\<close>

definition rstrip :: "char \<Rightarrow> string \<Rightarrow> string" where
  "rstrip c s = rev (dropWhile (\<lambda>x. x = c) (rev s))"

text \<open>The text of a list of strings inside an f-string.\<close>

fun join :: "string \<Rightarrow> string list \<Rightarrow> string" where
  "join sep [] = []"
| "join sep [x] = x"
| "join sep (x # y # ys) = x @ sep @ join sep (y # ys)"

fun repr :: "pyobj \<Rightarrow> string" where
  "repr (OStr s) = quoted s"
| "repr ONone = ''None''"
| "repr v = ''<object>''"

definition repr_list :: "pyobj list \<Rightarrow> string" where
  "repr_list xs = ''['' @ join '', '' (map repr xs) @ '']''"

text \<open>
  The names the import machinery and the \<open>import\<close> statements have bound before
  the first assignment. The file has no docstring, hence \<open>__doc__\<close> is \<open>None\<close>.
\<close>

definition module_header :: namespace where
  "module_header =
     [(''__name__'', OStr ''pygeobox.env''),
      (''__doc__'', ONone),
      (''__package__'', OStr ''pygeobox''),
      (''__loader__'', OOpaque),
      (''__spec__'', OOpaque),
      (''__file__'', OOpaque),
      (''__cached__'', OOpaque),
      (''__builtins__'', OOpaque),
      (''click'', OOpaque),
      (''logging'', OOpaque),
      (''os'', OOpaque),
      (''Path'', OOpaque),
      (''cli_helpers'', OOpaque),
      (''setup_logger'', OOpaque),
      (''load_plugin'', OOpaque),
      (''PLUGINS'', OOpaque),
      (''LOGGER'', OOpaque)]"

text \<open>
  \<^verbatim>\<open>
  try:
      STORAGE_DATA_RETENTION_DAYS = int(os.environ.get(...))
  except TypeError:
      STORAGE_DATA_RETENTION_DAYS = None
  \<close>
  \<open>int(None)\<close> raises the \<open>TypeError\<close> that is caught; \<open>int\<close> of a text that
  is not a number raises a \<open>ValueError\<close> that is not. Python's reading of a
  decimal literal is the parameter \<open>py_int\<close>.
\<close>

definition retention_days :: "(string \<Rightarrow> int option) \<Rightarrow> string option \<Rightarrow> error + pyobj" where
  "retention_days py_int v =
     (case v of
        None \<Rightarrow> Inr ONone
      | Some s \<Rightarrow>
          (case py_int s of
             None \<Rightarrow> Inl (ValueError (''invalid literal for int() with base 10: '' @ quoted s))
           | Some n \<Rightarrow> Inr (OInt n)))"

text \<open>The namespace after the assignments of lines 35 to 70.\<close>

definition module_bindings :: "environ \<Rightarrow> string \<Rightarrow> string \<Rightarrow> pyobj \<Rightarrow> namespace" where
  "module_bindings env datadir backend_url days =
     module_header @
     [(''DATADIR'', OPath [datadir]),
      (''DATADIR_CONFIG'', OPath [datadir, ''config'']),
      (''API_TYPE'', environ_get env ''PYGEOBOX_API_TYPE''),
      (''API_URL'', environ_get env ''PYGEOBOX_API_URL''),
      (''API_BACKEND_TYPE'', environ_get env ''PYGEOBOX_API_BACKEND_TYPE''),
      (''API_BACKEND_URL'', OStr (rstrip CHR ''/'' backend_url)),
      (''DOCKER_API_URL'', environ_get env ''PYGEOBOX_DOCKER_API_URL''),
      (''AUTH_URL'', environ_get env ''PYGEOBOX_AUTH_URL''),
      (''URL'', environ_get env ''PYGEOBOX_URL''),
      (''BROKER_USERNAME'', environ_get env ''PYGEOBOX_BROKER_USERNAME''),
      (''BROKER_PASSWORD'', environ_get env ''PYGEOBOX_BROKER_PASSWORD''),
      (''BROKER_HOST'', environ_get env ''PYGEOBOX_BROKER_HOST''),
      (''BROKER_PORT'', environ_get env ''PYGEOBOX_BROKER_PORT''),
      (''BROKER_PUBLIC'', environ_get env ''PYGEOBOX_BROKER_PUBLIC''),
      (''STORAGE_TYPE'', environ_get env ''PYGEOBOX_STORAGE_TYPE''),
      (''STORAGE_SOURCE'', environ_get env ''PYGEOBOX_STORAGE_SOURCE''),
      (''STORAGE_USERNAME'', environ_get env ''PYGEOBOX_STORAGE_USERNAME''),
      (''STORAGE_PASSWORD'', environ_get env ''PYGEOBOX_STORAGE_PASSWORD''),
      (''STORAGE_INCOMING'', environ_get env ''PYGEOBOX_STORAGE_INCOMING''),
      (''STORAGE_ARCHIVE'', environ_get env ''PYGEOBOX_STORAGE_ARCHIVE''),
      (''STORAGE_PUBLIC'', environ_get env ''PYGEOBOX_STORAGE_PUBLIC''),
      (''STORAGE_DATA_RETENTION_DAYS'', days),
      (''LOGLEVEL'', environ_get_default env ''PYGEOBOX_LOGGING_LOGLEVEL'' ''ERROR''),
      (''LOGFILE'', environ_get_default env ''PYGEOBOX_LOGGING_LOGFILE'' ''stdout'')]"

text \<open>\<open>missing_environment_variables.append(envvar_name)\<close>\<close>

definition append_missing :: "string \<Rightarrow> namespace \<Rightarrow> namespace" where
  "append_missing envvar_name ns =
     (case map_of ns ''missing_environment_variables'' of
        Some (OList xs) \<Rightarrow>
          AList.update ''missing_environment_variables'' (OList (xs @ [OStr envvar_name])) ns
      | _ \<Rightarrow> ns)"

text \<open>
  \<^verbatim>\<open>
  for rev in required_environment_variables:
      if rev is None:
          env_var = [k for k, v in locals().items()
                     if v is rev and k in required_environment_variables]
          if env_var:
              envvar_name = env_var[0]
              missing_environment_variables.append(envvar_name)
  \<close>
  In the branch \<open>rev\<close> is \<open>None\<close>, so \<open>v is rev\<close> holds exactly for the names
  bound to \<open>None\<close>. \<open>k in required_environment_variables\<close> compares the name
  \<open>k\<close>, a string, with the values in the list.
\<close>

fun check_required :: "pyobj list \<Rightarrow> namespace \<Rightarrow> pyobj list \<Rightarrow> namespace" where
  "check_required required ns [] = ns"
| "check_required required ns (rev_v # rest) =
     (let ns1 = AList.update ''rev'' rev_v ns
      in if rev_v = ONone
         then (let env_var = [k. (k, v) \<leftarrow> ns1, v = rev_v \<and> OStr k \<in> set required];
                   ns2 = AList.update ''env_var'' (OList (map OStr env_var)) ns1
               in case env_var of
                    [] \<Rightarrow> check_required required ns2 rest
                  | envvar_name # others \<Rightarrow>
                      check_required required
                        (append_missing envvar_name
                           (AList.update ''envvar_name'' (OStr envvar_name) ns2))
                        rest)
         else check_required required ns1 rest)"

definition import_env :: "(string \<Rightarrow> int option) \<Rightarrow> environ \<Rightarrow> error + namespace" where
  "import_env py_int env =
     (case env ''PYGEOBOX_DATADIR'' of
        None \<Rightarrow> Inl (EnvironmentError ''Configuration filepaths do not exist!'')
      | Some datadir \<Rightarrow>
          (case env ''PYGEOBOX_API_BACKEND_URL'' of
             None \<Rightarrow>
               Inl (AttributeError
                      (quoted ''NoneType'' @ '' object has no attribute '' @ quoted ''rstrip''))
           | Some backend_url \<Rightarrow>
               (case retention_days py_int (env ''PYGEOBOX_STORAGE_DATA_RETENTION_DAYS'') of
                  Inl e \<Rightarrow> Inl e
                | Inr days \<Rightarrow>
                    (let required =
                           [OPath [datadir],
                            environ_get env ''PYGEOBOX_DOCKER_API_URL'',
                            environ_get env ''PYGEOBOX_API_TYPE'',
                            environ_get env ''PYGEOBOX_URL''];
                         ns = module_bindings env datadir backend_url days @
                           [(''missing_environment_variables'', OList []),
                            (''required_environment_variables'', OList required)];
                         ns1 = check_required required ns required
                     in case map_of ns1 ''missing_environment_variables'' of
                          Some (OList (m # ms)) \<Rightarrow>
                            Inl (EnvironmentError
                                   (''Environment variables not set! = '' @ repr_list (m # ms)))
                        | _ \<Rightarrow> Inr ns1))))"

section \<open>Notions used in the statements\<close>

text \<open>
  The generator run to its end on its own: the actions it yields and the heap it
  leaves, or the exception it raises.
\<close>

fun gendata_run :: "string \<Rightarrow> heap \<Rightarrow> pyval list \<Rightarrow> error + (action list \<times> heap)" where
  "gendata_run es_index h [] = Inr ([], h)"
| "gendata_run es_index h (feature # features) =
     (case gendata_step es_index h feature of
        Inl e \<Rightarrow> Inl e
      | Inr (a, h1) \<Rightarrow>
          (case gendata_run es_index h1 features of
             Inl e \<Rightarrow> Inl e
           | Inr (acts, h2) \<Rightarrow> Inr (a # acts, h2)))"

text \<open>The actions of the bulk requests in a list of requests, in order.\<close>

fun bulk_actions :: "request list \<Rightarrow> action list" where
  "bulk_actions [] = []"
| "bulk_actions (Bulk acts # rs) = acts @ bulk_actions rs"
| "bulk_actions (r # rs) = bulk_actions rs"

text \<open>
  An action is enriched when it goes to the index \<open>es\<close> and the \<open>properties.id\<close>
  and the top-level \<open>id\<close> of its document both are the document's key.
\<close>

definition enriched :: "string \<Rightarrow> action \<Rightarrow> bool" where
  "enriched es a \<longleftrightarrow>
     act_index a = es
     \<and> doc_field (act_source a) ''properties.id'' = Some (act_id a)
     \<and> doc_field (act_source a) ''id'' = Some (act_id a)"

text \<open>
  An Item as the data model has it: a dict with an \<open>id\<close> and with \<open>properties\<close>
  that are a dict.
\<close>

definition is_dict :: "heap \<Rightarrow> pyval \<Rightarrow> bool" where
  "is_dict h v = (case v of PRef a \<Rightarrow> h a \<noteq> None | _ \<Rightarrow> False)"

definition is_item :: "heap \<Rightarrow> pyval \<Rightarrow> bool" where
  "is_item h f =
     (case getitem h f ''id'' of
        Inl e \<Rightarrow> False
      | Inr v \<Rightarrow>
          (case getitem h f ''properties'' of
             Inl e \<Rightarrow> False
           | Inr p \<Rightarrow> is_dict h p))"

text \<open>The names bound to \<open>None\<close> in a namespace.\<close>

definition none_names :: "namespace \<Rightarrow> string list" where
  "none_names ns = [k. (k, v) \<leftarrow> ns, v = ONone]"

section \<open>Example states\<close>

definition fresh_backend :: backend where
  "fresh_backend =
     \<lparr>conn_indices = [], conn_requests = [], logged = [], clock = (\<lambda>n. 0), clock_reads = 0\<rparr>"

text \<open>One item \<open>{'id': 'x', 'properties': {'resultTime': ...}}\<close>.\<close>

definition one_item_heap :: heap where
  "one_item_heap =
     [0 \<mapsto> [(''id'', PStr ''x''), (''properties'', PRef 1)],
      1 \<mapsto> [(''resultTime'', PTime 100)]]"

text \<open>Two items with the ids \<open>a\<close> and \<open>b\<close> that share one \<open>properties\<close> dict.\<close>

definition shared_heap :: heap where
  "shared_heap =
     [0 \<mapsto> [(''id'', PStr ''a''), (''properties'', PRef 2)],
      1 \<mapsto> [(''id'', PStr ''b''), (''properties'', PRef 2)],
      2 \<mapsto> []]"

text \<open>
  An index \<open>obs\<close> with four documents, 0, 5, 10 and 15 days old on a clock that
  stands at day 20. The third has a recent \<open>resultTime\<close> and a \<open>pubTime\<close> of
  exactly ten days ago.
\<close>

definition retention_heap :: heap where
  "retention_heap =
     [0 \<mapsto> [(''id'', PStr ''age0''), (''properties'', PRef 1)],
      1 \<mapsto> [(''resultTime'', PTime 1728000)],
      2 \<mapsto> [(''id'', PStr ''age5''), (''properties'', PRef 3)],
      3 \<mapsto> [(''resultTime'', PTime 1296000), (''pubTime'', PTime 1296000)],
      4 \<mapsto> [(''id'', PStr ''age10''), (''properties'', PRef 5)],
      5 \<mapsto> [(''resultTime'', PTime 1728000), (''pubTime'', PTime 864000)],
      6 \<mapsto> [(''id'', PStr ''age15''), (''properties'', PRef 7)],
      7 \<mapsto> [(''resultTime'', PTime 432000)]]"

definition retention_index :: index where
  "retention_index =
     \<lparr>idx_body = Some SETTINGS,
      idx_docs =
        [PStr ''age0'' \<mapsto> Document retention_heap (PRef 0),
         PStr ''age5'' \<mapsto> Document retention_heap (PRef 2),
         PStr ''age10'' \<mapsto> Document retention_heap (PRef 4),
         PStr ''age15'' \<mapsto> Document retention_heap (PRef 6)]\<rparr>"

definition retention_backend :: backend where
  "retention_backend =
     \<lparr>conn_indices = [(''obs'', retention_index)], conn_requests = [], logged = [],
      clock = (\<lambda>n. 1728000), clock_reads = 0\<rparr>"

text \<open>
  A reading of decimal literals for \<open>py_int\<close>: the value of a text of ASCII
  digits, and nothing for any other text.
\<close>

definition decimal :: "string \<Rightarrow> int option" where
  "decimal s =
     (if s \<noteq> [] \<and> list_all (\<lambda>c. 48 \<le> (of_char c :: nat) \<and> (of_char c :: nat) \<le> 57) s
      then Some (int (foldl (\<lambda>n c. 10 * n + (of_char c - 48)) 0 s))
      else None)"

text \<open>
  An environment in which \<open>PYGEOBOX_URL\<close> is not set and \<open>PYGEOBOX_API_TYPE\<close>
  has the value \<open>URL\<close>; one with only the data directory and the backend URL; and
  one in which nothing is set.
\<close>

definition empty_env :: environ where
  "empty_env = Map.empty"

definition example_env :: environ where
  "example_env =
     [''PYGEOBOX_DATADIR'' \<mapsto> ''/data'',
      ''PYGEOBOX_API_BACKEND_URL'' \<mapsto> ''http://localhost:9200/'',
      ''PYGEOBOX_DOCKER_API_URL'' \<mapsto> ''http://api'',
      ''PYGEOBOX_API_TYPE'' \<mapsto> ''URL'']"

definition bare_env :: environ where
  "bare_env =
     [''PYGEOBOX_DATADIR'' \<mapsto> ''/data'',
      ''PYGEOBOX_API_BACKEND_URL'' \<mapsto> ''http://localhost:9200/'']"

section \<open>Properties of \<open>es_id\<close>\<close>

lemma lower_char_idem: "lower_char (lower_char c) = lower_char c"
  by (simp add: lower_char_def Let_def)

lemma lower_char_colon: "lower_char c = CHR '':'' \<longleftrightarrow> c = CHR '':''"
proof
  assume h: "lower_char c = CHR '':''"
  show "c = CHR '':''"
  proof (cases "65 \<le> (of_char c :: nat) \<and> (of_char c :: nat) \<le> 90")
    case True
    then have "lower_char c = char_of ((of_char c :: nat) + 32)"
      by (simp add: lower_char_def)
    then have "(of_char (lower_char c) :: nat) = of_char c + 32"
      using True by simp
    then show ?thesis using h True by simp
  next
    case False
    then show ?thesis using h by (auto simp add: lower_char_def Let_def)
  qed
next
  assume "c = CHR '':''"
  then show "lower_char c = CHR '':''" by (simp add: lower_char_def)
qed

lemma lower_char_dash: "lower_char CHR ''-'' = CHR ''-''"
  by (simp add: lower_char_def)

lemma es_id_idem: "es_id (es_id x) = es_id x"
  by (induction x)
     (auto simp add: es_id_def lower_def replace_char_def lower_char_idem
        lower_char_colon lower_char_dash)


lemma es_id_examples:
  "es_id ''A:B'' = ''a-b''"
  "es_id ''a-b'' = ''a-b''"
  by code_simp+



section \<open>The state after a call of the client\<close>

lemma sent_simps:
  "conn_indices (sent r s) = conn_indices s"
  "conn_requests (sent r s) = conn_requests s @ [r]"
  "logged (sent r s) = logged s"
  "clock (sent r s) = clock s"
  "clock_reads (sent r s) = clock_reads s"
  by (simp_all add: sent_def)

lemma log_record_simps:
  "conn_indices (log_record l m s) = conn_indices s"
  "conn_requests (log_record l m s) = conn_requests s"
  "logged (log_record l m s) = logged s @ [(l, m)]"
  "clock (log_record l m s) = clock s"
  "clock_reads (log_record l m s) = clock_reads s"
  by (simp_all add: log_record_def)

lemma conn_bulk_simps:
  "conn_indices (conn_bulk s acts) = fold write_doc acts (conn_indices s)"
  "conn_requests (conn_bulk s acts) = conn_requests s @ [Bulk acts]"
  "logged (conn_bulk s acts) = logged s"
  "clock (conn_bulk s acts) = clock s"
  "clock_reads (conn_bulk s acts) = clock_reads s"
  by (simp_all add: conn_bulk_def sent_def)

lemma fresh_backend_simps:
  "conn_indices fresh_backend = []"
  "conn_requests fresh_backend = []"
  "logged fresh_backend = []"
  by (simp_all add: fresh_backend_def)

lemma has_collection_eq:
  "has_collection s cid =
     (map_of (conn_indices s) (es_id cid) \<noteq> None, sent (IndicesExists (es_id cid)) s)"
  by (simp add: has_collection_def indices_exists_def Let_def)

section \<open>Collections: \<open>add_collection\<close> and \<open>delete_collection\<close>\<close>

lemma add_collection_present:
  "map_of (conn_indices s) (es_id cid) \<noteq> None \<Longrightarrow>
   add_collection s cid =
     (Inl (RuntimeError (''index '' @ es_id cid @ '' exists'') None),
      log_record ERROR (''index '' @ es_id cid @ '' exists'') (sent (IndicesExists (es_id cid)) s))"
  by (auto simp add: add_collection_def has_collection_eq Let_def)

lemma add_collection_absent:
  "map_of (conn_indices s) (es_id cid) = None \<Longrightarrow>
   \<exists>s'. add_collection s cid = (Inr True, s')
      \<and> conn_indices s' =
          AList.update (es_id cid) \<lparr>idx_body = Some SETTINGS, idx_docs = Map.empty\<rparr> (conn_indices s)
      \<and> conn_requests s' = conn_requests s @
          [IndicesExists (es_id cid), IndicesCreate (es_id cid) SETTINGS, IndicesExists (es_id cid)]
      \<and> logged s' = logged s \<and> clock s' = clock s \<and> clock_reads s' = clock_reads s"
  by (simp add: add_collection_def has_collection_eq indices_create_def Let_def sent_def
        update_conv')

text \<open>
  Claim C3. When the normalized index exists, \<open>add_collection\<close> raises the runtime
  error with the message \<open>index ... exists\<close> (the spec's CollectionExistsError)
  after the existence check alone: no other request is sent and the indices are as
  they were. When it does not exist, the index is created with \<open>SETTINGS\<close> and no
  documents, the other indices are untouched, and the value returned is that of the
  existence check made after the creation, which is true.
\<close>

theorem add_collection_exists_or_creates:
  "(fst (has_collection s cid) \<longrightarrow>
      (\<exists>s'. add_collection s cid =
               (Inl (RuntimeError (''index '' @ es_id cid @ '' exists'') None), s')
            \<and> conn_indices s' = conn_indices s
            \<and> conn_requests s' = conn_requests s @ [IndicesExists (es_id cid)]
            \<and> logged s' = logged s @ [(ERROR, ''index '' @ es_id cid @ '' exists'')]))
   \<and> (\<not> fst (has_collection s cid) \<longrightarrow>
      (\<exists>b s'. add_collection s cid = (Inr b, s')
            \<and> b = fst (has_collection s' cid)
            \<and> b
            \<and> map_of (conn_indices s') (es_id cid)
                = Some \<lparr>idx_body = Some SETTINGS, idx_docs = Map.empty\<rparr>
            \<and> (\<forall>n. n \<noteq> es_id cid \<longrightarrow> map_of (conn_indices s') n = map_of (conn_indices s) n)
            \<and> conn_requests s' = conn_requests s @
                 [IndicesExists (es_id cid), IndicesCreate (es_id cid) SETTINGS,
                  IndicesExists (es_id cid)]
            \<and> logged s' = logged s))"
proof (intro conjI impI)
  assume "fst (has_collection s cid)"
  then have "map_of (conn_indices s) (es_id cid) \<noteq> None" by (simp add: has_collection_eq)
  from add_collection_present [OF this] show
    "\<exists>s'. add_collection s cid =
               (Inl (RuntimeError (''index '' @ es_id cid @ '' exists'') None), s')
            \<and> conn_indices s' = conn_indices s
            \<and> conn_requests s' = conn_requests s @ [IndicesExists (es_id cid)]
            \<and> logged s' = logged s @ [(ERROR, ''index '' @ es_id cid @ '' exists'')]"
    by (simp add: log_record_simps sent_simps)
next
  assume "\<not> fst (has_collection s cid)"
  then have "map_of (conn_indices s) (es_id cid) = None" by (simp add: has_collection_eq)
  from add_collection_absent [OF this] obtain s' where
    a: "add_collection s cid = (Inr True, s')"
    and i: "conn_indices s' =
          AList.update (es_id cid) \<lparr>idx_body = Some SETTINGS, idx_docs = Map.empty\<rparr> (conn_indices s)"
    and q: "conn_requests s' = conn_requests s @
          [IndicesExists (es_id cid), IndicesCreate (es_id cid) SETTINGS, IndicesExists (es_id cid)]"
    and l: "logged s' = logged s"
    by blast
  have "fst (has_collection s' cid)" using i by (simp add: has_collection_eq update_conv')
  moreover have "map_of (conn_indices s') (es_id cid)
                = Some \<lparr>idx_body = Some SETTINGS, idx_docs = Map.empty\<rparr>"
    using i by (simp add: update_conv')
  moreover have "\<forall>n. n \<noteq> es_id cid \<longrightarrow> map_of (conn_indices s') n = map_of (conn_indices s) n"
    using i by (simp add: update_conv')
  ultimately show "\<exists>b s'. add_collection s cid = (Inr b, s')
            \<and> b = fst (has_collection s' cid)
            \<and> b
            \<and> map_of (conn_indices s') (es_id cid)
                = Some \<lparr>idx_body = Some SETTINGS, idx_docs = Map.empty\<rparr>
            \<and> (\<forall>n. n \<noteq> es_id cid \<longrightarrow> map_of (conn_indices s') n = map_of (conn_indices s) n)
            \<and> conn_requests s' = conn_requests s @
                 [IndicesExists (es_id cid), IndicesCreate (es_id cid) SETTINGS,
                  IndicesExists (es_id cid)]
            \<and> logged s' = logged s"
    using a q l by auto
qed

theorem add_collection_exists_or_creates_witness:
  "\<not> fst (has_collection fresh_backend ''A:B'')
   \<and> (\<exists>s'. add_collection fresh_backend ''A:B'' = (Inr True, s')
         \<and> fst (has_collection s' ''A:B'')
         \<and> map_of (conn_indices s') ''a-b''
              = Some \<lparr>idx_body = Some SETTINGS, idx_docs = Map.empty\<rparr>
         \<and> (\<exists>s''. add_collection s' ''A:B'' = (Inl (RuntimeError ''index a-b exists'' None), s'')
               \<and> conn_indices s'' = conn_indices s'))"
proof -
  have fresh: "\<not> fst (has_collection fresh_backend ''A:B'')"
    by (simp add: has_collection_eq fresh_backend_simps)
  with add_collection_exists_or_creates [of fresh_backend "''A:B''"] obtain s' where
    a: "add_collection fresh_backend ''A:B'' = (Inr True, s')"
    and h: "fst (has_collection s' ''A:B'')"
    and k: "map_of (conn_indices s') (es_id ''A:B'')
              = Some \<lparr>idx_body = Some SETTINGS, idx_docs = Map.empty\<rparr>"
    by auto
  from h add_collection_exists_or_creates [of s' "''A:B''"] obtain s'' where
    "add_collection s' ''A:B'' = (Inl (RuntimeError (''index '' @ es_id ''A:B'' @ '' exists'') None), s'')"
    "conn_indices s'' = conn_indices s'"
    by auto
  then show ?thesis using fresh a h k by (simp add: es_id_examples)
qed

text \<open>
  Claim C4. When the collection is absent, \<open>delete_collection\<close> raises the runtime
  error with the message \<open>index ... does not exist\<close> (the spec's
  CollectionNotFoundError) and changes no index. When it is present, the index is
  removed, the other indices are untouched, and the value returned is the negation of
  the existence check made after the removal, which is true.
\<close>

theorem delete_collection_missing_or_removes:
  "(\<not> fst (has_collection s cid) \<longrightarrow>
      (\<exists>s'. delete_collection s cid =
               (Inl (RuntimeError (''index '' @ es_id cid @ '' does not exist'') None), s')
            \<and> conn_indices s' = conn_indices s
            \<and> conn_requests s' = conn_requests s @ [IndicesExists (es_id cid)]
            \<and> logged s' = logged s @ [(ERROR, ''index '' @ es_id cid @ '' does not exist'')]))
   \<and> (fst (has_collection s cid) \<longrightarrow>
      (\<exists>b s'. delete_collection s cid = (Inr b, s')
            \<and> b = (\<not> fst (has_collection s' cid))
            \<and> b
            \<and> map_of (conn_indices s') (es_id cid) = None
            \<and> (\<forall>n. n \<noteq> es_id cid \<longrightarrow> map_of (conn_indices s') n = map_of (conn_indices s) n)
            \<and> conn_requests s' = conn_requests s @
                 [IndicesExists (es_id cid), IndicesExists (es_id cid),
                  IndicesDelete (es_id cid), IndicesExists (es_id cid)]
            \<and> logged s' = logged s))"
  by (auto simp add: delete_collection_def has_collection_def indices_exists_def indices_delete_def
        sent_def log_record_def Let_def delete_conv' split: prod.splits)

theorem delete_collection_missing_or_removes_witness:
  "\<not> fst (has_collection fresh_backend ''A:B'')
   \<and> (\<exists>s'. delete_collection fresh_backend ''A:B'' =
             (Inl (RuntimeError ''index a-b does not exist'' None), s'))
   \<and> fst (has_collection retention_backend ''OBS'')
   \<and> (\<exists>s'. delete_collection retention_backend ''OBS'' = (Inr True, s')
         \<and> \<not> fst (has_collection s' ''OBS''))"
proof -
  have fresh: "\<not> fst (has_collection fresh_backend ''A:B'')"
    by (simp add: has_collection_eq fresh_backend_simps)
  have "es_id ''OBS'' = ''obs''" by code_simp
  then have obs: "fst (has_collection retention_backend ''OBS'')"
    by (simp add: has_collection_eq retention_backend_def)
  from fresh delete_collection_missing_or_removes [of fresh_backend "''A:B''"] have
    "\<exists>s'. delete_collection fresh_backend ''A:B'' =
             (Inl (RuntimeError ''index a-b does not exist'' None), s')"
    by (auto simp add: es_id_examples)
  moreover from obs delete_collection_missing_or_removes [of retention_backend "''OBS''"] have
    "\<exists>s'. delete_collection retention_backend ''OBS'' = (Inr True, s')
         \<and> \<not> fst (has_collection s' ''OBS'')"
    by auto
  ultimately show ?thesis using fresh obs by blast
qed

section \<open>Single items: \<open>delete_collection_item\<close>\<close>



section \<open>The generator \<open>gendata\<close>\<close>

lemma split_on_paths:
  "split_on CHR ''.'' ''properties.id'' = [''properties'', ''id'']"
  "split_on CHR ''.'' ''id'' = [''id'']"
  "split_on CHR ''.'' ''properties.resultTime'' = [''properties'', ''resultTime'']"
  "split_on CHR ''.'' ''properties.pubTime'' = [''properties'', ''pubTime'']"
  by simp_all

lemma gendata_stepE:
  assumes "gendata_step es h f = Inr (a, h1)"
  obtains fa d v pa dp where
    "f = PRef fa" "h fa = Some d" "map_of d ''id'' = Some v"
    "map_of d ''properties'' = Some (PRef pa)" "h pa = Some dp"
    "h1 = h(pa \<mapsto> AList.update ''id'' v dp)"
    "a = \<lparr>act_index = es, act_id = v, act_source = Document h1 f\<rparr>"
proof -
  from assms obtain v p h1' i where
    g1: "getitem h f ''id'' = Inr v" and
    g2: "getitem h f ''properties'' = Inr p" and
    s1: "setitem h p ''id'' v = Inr h1'" and
    g3: "getitem h1' f ''id'' = Inr i" and
    r: "a = \<lparr>act_index = es, act_id = i, act_source = Document h1' f\<rparr>" "h1 = h1'"
    by (auto simp add: gendata_step_def split: sum.splits)
  from g1 obtain fa d where f: "f = PRef fa" "h fa = Some d" "map_of d ''id'' = Some v"
    by (auto simp add: getitem_def split: pyval.splits option.splits)
  from g2 f have p: "map_of d ''properties'' = Some p"
    by (auto simp add: getitem_def split: option.splits)
  from s1 obtain pa dp where q: "p = PRef pa" "h pa = Some dp"
    "h1' = h(pa \<mapsto> AList.update ''id'' v dp)"
    by (auto simp add: setitem_def split: pyval.splits option.splits)
  have "i = v"
    using g3 f q by (auto simp add: getitem_def update_conv' split: if_splits option.splits)
  then show thesis using that f p q r by blast
qed

lemma gendata_step_enriched:
  assumes "gendata_step es h f = Inr (a, h1)"
  shows "act_index a = es"
    and "act_source a = Document h1 f"
    and "doc_field (act_source a) ''properties.id'' = Some (act_id a)"
    and "doc_field (act_source a) ''id'' = Some (act_id a)"
proof -
  from assms obtain fa d v pa dp where
    *: "f = PRef fa" "h fa = Some d" "map_of d ''id'' = Some v"
    "map_of d ''properties'' = Some (PRef pa)" "h pa = Some dp"
    "h1 = h(pa \<mapsto> AList.update ''id'' v dp)"
    "a = \<lparr>act_index = es, act_id = v, act_source = Document h1 f\<rparr>"
    by (rule gendata_stepE)
  show "act_index a = es" "act_source a = Document h1 f" using * by simp_all
  show "doc_field (act_source a) ''properties.id'' = Some (act_id a)"
    using * by (auto simp add: split_on_paths update_conv')
  show "doc_field (act_source a) ''id'' = Some (act_id a)"
    using * by (auto simp add: split_on_paths update_conv')
qed

lemma gendata_run_actions:
  "gendata_run es h fs = Inr (acts, h') \<Longrightarrow>
   list_all2 (\<lambda>f a. enriched es a \<and> (\<exists>hi. act_source a = Document hi f)) fs acts"
proof (induction fs arbitrary: h acts)
  case Nil
  then show ?case by simp
next
  case (Cons f fs)
  from Cons.prems obtain a h1 acts1 where
    st: "gendata_step es h f = Inr (a, h1)" and
    run: "gendata_run es h1 fs = Inr (acts1, h')" and
    acts: "acts = a # acts1"
    by (auto split: sum.splits prod.splits)
  have "enriched es a \<and> (\<exists>hi. act_source a = Document hi f)"
    using gendata_step_enriched [OF st] by (simp add: enriched_def)
  then show ?case using Cons.IH [OF run] acts by simp
qed

text \<open>Reads of the heap across one step of the generator.\<close>

lemma getitem_properties_step:
  "h pa = Some dp \<Longrightarrow>
   getitem (h(pa \<mapsto> AList.update ''id'' v dp)) obj ''properties'' = getitem h obj ''properties''"
  by (auto simp add: getitem_def update_conv' split: pyval.splits option.splits)

lemma getitem_other:
  "obj \<noteq> PRef pa \<Longrightarrow> getitem (h(pa \<mapsto> x)) obj k = getitem h obj k"
  by (auto simp add: getitem_def split: pyval.splits option.splits)

text \<open>
  The frame of a run of the generator: a dict is as it was, or it is the
  \<open>properties\<close> of a feature and differs by an assignment to its \<open>id\<close>.
\<close>

lemma gendata_run_frame:
  "gendata_run es h fs = Inr (acts, h') \<Longrightarrow>
   h' a = h a \<or>
   (\<exists>g \<in> set fs. \<exists>v d. getitem h g ''properties'' = Inr (PRef a)
        \<and> h a = Some d \<and> h' a = Some (AList.update ''id'' v d))"
proof (induction fs arbitrary: h acts)
  case Nil
  then show ?case by simp
next
  case (Cons f fs)
  from Cons.prems obtain a1 h1 acts1 where
    st: "gendata_step es h f = Inr (a1, h1)" and
    run: "gendata_run es h1 fs = Inr (acts1, h')"
    by (auto split: sum.splits prod.splits)
  from st obtain fa d v pa dp where
    *: "f = PRef fa" "h fa = Some d" "map_of d ''id'' = Some v"
    "map_of d ''properties'' = Some (PRef pa)" "h pa = Some dp"
    "h1 = h(pa \<mapsto> AList.update ''id'' v dp)"
    by (rule gendata_stepE)
  have fp: "getitem h f ''properties'' = Inr (PRef pa)"
    using *(1,2,4) by (simp add: getitem_def)
  have props: "\<And>g. getitem h1 g ''properties'' = getitem h g ''properties''"
    using *(5,6) by (simp add: getitem_properties_step)
  from Cons.IH [OF run] have
    ih: "h' a = h1 a \<or>
      (\<exists>g \<in> set fs. \<exists>v d. getitem h1 g ''properties'' = Inr (PRef a)
        \<and> h1 a = Some d \<and> h' a = Some (AList.update ''id'' v d))" .
  show ?case
  proof (cases "a = pa")
    case True
    then have ha: "h a = Some dp" using *(5) by simp
    from ih show ?thesis
    proof
      assume "h' a = h1 a"
      then have "h' a = Some (AList.update ''id'' v dp)" using True *(6) by simp
      moreover have "f \<in> set (f # fs)" by simp
      moreover have "getitem h f ''properties'' = Inr (PRef a)" using fp True by simp
      ultimately show ?thesis using ha by blast
    next
      assume "\<exists>g \<in> set fs. \<exists>v d. getitem h1 g ''properties'' = Inr (PRef a)
        \<and> h1 a = Some d \<and> h' a = Some (AList.update ''id'' v d)"
      then obtain g w d1 where g: "g \<in> set fs" "getitem h1 g ''properties'' = Inr (PRef a)"
        "h1 a = Some d1" "h' a = Some (AList.update ''id'' w d1)" by blast
      have "d1 = AList.update ''id'' v dp" using g(3) True *(6) by simp
      then have "h' a = Some (AList.update ''id'' w dp)" using g(4) by simp
      moreover have "g \<in> set (f # fs)" using g(1) by simp
      moreover have "getitem h g ''properties'' = Inr (PRef a)" using g(2) props by simp
      ultimately show ?thesis using ha by blast
    qed
  next
    case False
    then have same: "h1 a = h a" using *(6) by simp
    from ih show ?thesis
    proof
      assume "h' a = h1 a"
      then show ?thesis using same by simp
    next
      assume "\<exists>g \<in> set fs. \<exists>v d. getitem h1 g ''properties'' = Inr (PRef a)
        \<and> h1 a = Some d \<and> h' a = Some (AList.update ''id'' v d)"
      then obtain g w d1 where g: "g \<in> set fs" "getitem h1 g ''properties'' = Inr (PRef a)"
        "h1 a = Some d1" "h' a = Some (AList.update ''id'' w d1)" by blast
      have "h a = Some d1" using g(3) same by simp
      moreover have "g \<in> set (f # fs)" using g(1) by simp
      moreover have "getitem h g ''properties'' = Inr (PRef a)" using g(2) props by simp
      ultimately show ?thesis using g(4) by blast
    qed
  qed
qed

lemma gendata_run_props:
  "gendata_run es h fs = Inr (acts, h') \<Longrightarrow> f \<in> set fs \<Longrightarrow>
   \<exists>pa. getitem h f ''properties'' = Inr (PRef pa)"
proof (induction fs arbitrary: h acts)
  case Nil
  then show ?case by simp
next
  case (Cons f0 fs)
  from Cons.prems obtain a1 h1 acts1 where
    st: "gendata_step es h f0 = Inr (a1, h1)" and
    run: "gendata_run es h1 fs = Inr (acts1, h')"
    by (auto split: sum.splits prod.splits)
  from st obtain fa d v pa dp where
    *: "f0 = PRef fa" "h fa = Some d" "map_of d ''id'' = Some v"
    "map_of d ''properties'' = Some (PRef pa)" "h pa = Some dp"
    "h1 = h(pa \<mapsto> AList.update ''id'' v dp)"
    by (rule gendata_stepE)
  have fp: "getitem h f0 ''properties'' = Inr (PRef pa)"
    using *(1,2,4) by (simp add: getitem_def)
  have props: "\<And>g. getitem h1 g ''properties'' = getitem h g ''properties''"
    using *(5,6) by (simp add: getitem_properties_step)
  show ?case
  proof (cases "f = f0")
    case True
    then show ?thesis using fp by blast
  next
    case False
    then have "f \<in> set fs" using Cons.prems(2) by simp
    from Cons.IH [OF run this] show ?thesis using props by simp
  qed
qed

text \<open>
  When no feature is the \<open>properties\<close> of a feature, the \<open>id\<close> written last into
  a \<open>properties\<close> dict is the \<open>id\<close> some feature with these properties had at the
  start.
\<close>

lemma gendata_run_written:
  "gendata_run es h fs = Inr (acts, h') \<Longrightarrow>
   (\<forall>f \<in> set fs. \<forall>g \<in> set fs. getitem h f ''properties'' \<noteq> Inr g) \<Longrightarrow>
   g0 \<in> set fs \<Longrightarrow> getitem h g0 ''properties'' = Inr (PRef a) \<Longrightarrow>
   \<exists>g \<in> set fs. \<exists>v d. getitem h g ''properties'' = Inr (PRef a)
        \<and> getitem h g ''id'' = Inr v
        \<and> h a = Some d \<and> h' a = Some (AList.update ''id'' v d)"
proof (induction fs arbitrary: h acts g0)
  case Nil
  then show ?case by simp
next
  case (Cons f fs)
  from Cons.prems(1) obtain a1 h1 acts1 where
    st: "gendata_step es h f = Inr (a1, h1)" and
    run: "gendata_run es h1 fs = Inr (acts1, h')"
    by (auto split: sum.splits prod.splits)
  from st obtain fa d v pa dp where
    *: "f = PRef fa" "h fa = Some d" "map_of d ''id'' = Some v"
    "map_of d ''properties'' = Some (PRef pa)" "h pa = Some dp"
    "h1 = h(pa \<mapsto> AList.update ''id'' v dp)"
    by (rule gendata_stepE)
  have fp: "getitem h f ''properties'' = Inr (PRef pa)"
    using *(1,2,4) by (simp add: getitem_def)
  have fi: "getitem h f ''id'' = Inr v"
    using *(1,2,3) by (simp add: getitem_def)
  have props: "\<And>g. getitem h1 g ''properties'' = getitem h g ''properties''"
    using *(5,6) by (simp add: getitem_properties_step)
  have sep: "\<And>g. g \<in> set fs \<Longrightarrow> g \<noteq> PRef pa"
  proof -
    fix g assume "g \<in> set fs"
    then have "getitem h f ''properties'' \<noteq> Inr g" using Cons.prems(2) by simp
    then show "g \<noteq> PRef pa" using fp by auto
  qed
  have ids: "\<And>g. g \<in> set fs \<Longrightarrow> getitem h1 g ''id'' = getitem h g ''id''"
    using sep *(6) by (simp add: getitem_other)
  have h1sep: "\<forall>f \<in> set fs. \<forall>g \<in> set fs. getitem h1 f ''properties'' \<noteq> Inr g"
    using Cons.prems(2) props by simp
  show ?case
  proof (cases "\<exists>g1 \<in> set fs. getitem h g1 ''properties'' = Inr (PRef a)")
    case True
    then obtain g1 where g1: "g1 \<in> set fs" "getitem h1 g1 ''properties'' = Inr (PRef a)"
      using props by auto
    from Cons.IH [OF run h1sep g1] obtain g w d1 where
      g: "g \<in> set fs" "getitem h1 g ''properties'' = Inr (PRef a)"
         "getitem h1 g ''id'' = Inr w" "h1 a = Some d1"
         "h' a = Some (AList.update ''id'' w d1)"
      by blast
    have gp: "getitem h g ''properties'' = Inr (PRef a)" using g(2) props by simp
    have gi: "getitem h g ''id'' = Inr w" using g(1,3) ids by simp
    have gin: "g \<in> set (f # fs)" using g(1) by simp
    show ?thesis
    proof (cases "a = pa")
      case True
      then have "d1 = AList.update ''id'' v dp" using g(4) *(6) by simp
      then have "h' a = Some (AList.update ''id'' w dp)" using g(5) by simp
      moreover have "h a = Some dp" using True *(5) by simp
      ultimately show ?thesis using gp gi gin by blast
    next
      case False
      then have "h a = Some d1" using g(4) *(6) by simp
      then show ?thesis using gp gi gin g(5) by blast
    qed
  next
    case False
    then have "g0 = f" using Cons.prems(3,4) by auto
    then have apa: "a = pa" using Cons.prems(4) fp by simp
    have "\<not> (\<exists>g \<in> set fs. \<exists>v d. getitem h1 g ''properties'' = Inr (PRef a)
        \<and> h1 a = Some d \<and> h' a = Some (AList.update ''id'' v d))"
      using False props by simp
    then have "h' a = h1 a" using gendata_run_frame [OF run, of a] by blast
    then have "h' a = Some (AList.update ''id'' v dp)" using apa *(6) by simp
    moreover have "h a = Some dp" using apa *(5) by simp
    moreover have "f \<in> set (f # fs)" by simp
    moreover have "getitem h f ''properties'' = Inr (PRef a)" using fp apa by simp
    ultimately show ?thesis using fi by blast
  qed
qed

text \<open>On Items the generator does not raise.\<close>

lemma is_itemE:
  assumes "is_item h f"
  obtains fa d v pa dp where
    "f = PRef fa" "h fa = Some d" "map_of d ''id'' = Some v"
    "map_of d ''properties'' = Some (PRef pa)" "h pa = Some dp"
proof -
  from assms obtain v p where
    g1: "getitem h f ''id'' = Inr v" and
    g2: "getitem h f ''properties'' = Inr p" and
    d: "is_dict h p"
    by (auto simp add: is_item_def split: sum.splits)
  from g1 obtain fa d where f: "f = PRef fa" "h fa = Some d" "map_of d ''id'' = Some v"
    by (auto simp add: getitem_def split: pyval.splits option.splits)
  from g2 f have p: "map_of d ''properties'' = Some p"
    by (auto simp add: getitem_def split: option.splits)
  from d obtain pa dp where "p = PRef pa" "h pa = Some dp"
    by (auto simp add: is_dict_def split: pyval.splits)
  then show thesis using that f p by blast
qed

lemma is_item_step:
  assumes "is_item h f"
  obtains a v pa dp where
    "gendata_step es h f = Inr (a, h(pa \<mapsto> AList.update ''id'' v dp))" "h pa = Some dp"
proof -
  from assms obtain fa d v pa dp where
    *: "f = PRef fa" "h fa = Some d" "map_of d ''id'' = Some v"
    "map_of d ''properties'' = Some (PRef pa)" "h pa = Some dp"
    by (rule is_itemE)
  then have "\<exists>a. gendata_step es h f = Inr (a, h(pa \<mapsto> AList.update ''id'' v dp))"
    by (auto simp add: gendata_step_def getitem_def setitem_def update_conv')
  then show thesis using that * by blast
qed

lemma is_item_preserved:
  assumes "is_item h g" "h pa = Some dp"
  shows "is_item (h(pa \<mapsto> AList.update ''id'' v dp)) g"
proof -
  from assms(1) obtain ga d w qa dq where
    *: "g = PRef ga" "h ga = Some d" "map_of d ''id'' = Some w"
    "map_of d ''properties'' = Some (PRef qa)" "h qa = Some dq"
    by (rule is_itemE)
  then show ?thesis using assms(2)
    by (auto simp add: is_item_def is_dict_def getitem_def update_conv')
qed

lemma gendata_run_items:
  "list_all (is_item h) fs \<Longrightarrow> \<exists>acts h'. gendata_run es h fs = Inr (acts, h')"
proof (induction fs arbitrary: h)
  case Nil
  then show ?case by simp
next
  case (Cons f fs)
  then have "is_item h f" by simp
  then obtain a v pa dp where
    st: "gendata_step es h f = Inr (a, h(pa \<mapsto> AList.update ''id'' v dp))" and pa: "h pa = Some dp"
    by (rule is_item_step)
  have "list_all (is_item (h(pa \<mapsto> AList.update ''id'' v dp))) fs"
    using Cons.prems pa by (auto simp add: list_all_iff is_item_preserved)
  from Cons.IH [OF this] obtain acts h' where
    "gendata_run es (h(pa \<mapsto> AList.update ''id'' v dp)) fs = Inr (acts, h')" by blast
  then show ?case using st by simp
qed

lemma one_item_ok: "list_all (is_item one_item_heap) [PRef 0]"
  by (simp add: is_item_def is_dict_def getitem_def one_item_heap_def)

section \<open>The bulk call\<close>

lemma bulk_actions_append: "bulk_actions (xs @ ys) = bulk_actions xs @ bulk_actions ys"
  by (induction xs rule: bulk_actions.induct) simp_all

lemma bulk_gendata_ok:
  "gendata_run es h fs = Inr (acts, h') \<Longrightarrow>
   \<exists>s' new. bulk_gendata es s h pending fs = (Inr (), s', h')
      \<and> conn_requests s' = conn_requests s @ new
      \<and> bulk_actions new = pending @ acts
      \<and> conn_indices s' = fold write_doc (pending @ acts) (conn_indices s)
      \<and> logged s' = logged s \<and> clock s' = clock s \<and> clock_reads s' = clock_reads s"
proof (induction fs arbitrary: s h pending acts)
  case Nil
  then show ?case by (auto simp add: conn_bulk_simps)
next
  case (Cons f fs)
  from Cons.prems obtain a h1 acts1 where
    st: "gendata_step es h f = Inr (a, h1)" and
    run: "gendata_run es h1 fs = Inr (acts1, h')" and
    acts: "acts = a # acts1"
    by (auto split: sum.splits prod.splits)
  show ?case
  proof (cases "pending \<noteq> [] \<and> length pending = chunk_size")
    case True
    from Cons.IH [OF run, of "conn_bulk s pending" "[a]"] obtain s' new where
      r: "bulk_gendata es (conn_bulk s pending) h1 [a] fs = (Inr (), s', h')"
      and q: "conn_requests s' = conn_requests (conn_bulk s pending) @ new"
      and b: "bulk_actions new = [a] @ acts1"
      and i: "conn_indices s' = fold write_doc ([a] @ acts1) (conn_indices (conn_bulk s pending))"
      and l: "logged s' = logged (conn_bulk s pending)" "clock s' = clock (conn_bulk s pending)"
          "clock_reads s' = clock_reads (conn_bulk s pending)"
      by blast
    have "bulk_gendata es s h pending (f # fs) = (Inr (), s', h')"
      using st True r by simp
    moreover have "conn_requests s' = conn_requests s @ (Bulk pending # new)"
      using q by (simp add: conn_bulk_simps)
    moreover have "bulk_actions (Bulk pending # new) = pending @ acts"
      using b acts by simp
    moreover have "conn_indices s' = fold write_doc (pending @ acts) (conn_indices s)"
      using i acts by (simp add: conn_bulk_simps)
    ultimately show ?thesis using l by (auto simp add: conn_bulk_simps)
  next
    case False
    from Cons.IH [OF run, of s "pending @ [a]"] obtain s' new where
      r: "bulk_gendata es s h1 (pending @ [a]) fs = (Inr (), s', h')"
      and q: "conn_requests s' = conn_requests s @ new"
      and b: "bulk_actions new = (pending @ [a]) @ acts1"
      and i: "conn_indices s' = fold write_doc ((pending @ [a]) @ acts1) (conn_indices s)"
      and l: "logged s' = logged s" "clock s' = clock s" "clock_reads s' = clock_reads s"
      by blast
    have "bulk_gendata es s h pending (f # fs) = (Inr (), s', h')"
      using st False r by auto
    then show ?thesis using q b i l acts by auto
  qed
qed

lemma bulk_gendata_err:
  "gendata_run es h fs = Inl e \<Longrightarrow> fst (bulk_gendata es s h pending fs) = Inl e"
proof (induction fs arbitrary: s h pending)
  case Nil
  then show ?case by simp
next
  case (Cons f fs)
  show ?case
  proof (cases "gendata_step es h f")
    case (Inl e')
    with Cons.prems show ?thesis by simp
  next
    case (Inr ah)
    then obtain a h1 where st: "gendata_step es h f = Inr (a, h1)" by (cases ah) simp
    with Cons.prems have "gendata_run es h1 fs = Inl e"
      by (auto split: sum.splits)
    then show ?thesis using st Cons.IH by auto
  qed
qed

lemma bulk_gendata_run:
  assumes "bulk_gendata es s h pending fs = (Inr u, s', h')"
  shows "\<exists>acts. gendata_run es h fs = Inr (acts, h')"
proof (cases "gendata_run es h fs")
  case (Inl e)
  then have "fst (bulk_gendata es s h pending fs) = Inl e" by (rule bulk_gendata_err)
  then show ?thesis using assms by simp
next
  case (Inr ah)
  then obtain acts h2 where run: "gendata_run es h fs = Inr (acts, h2)" by (cases ah) simp
  from bulk_gendata_ok [OF run, of s pending] have "h2 = h'" using assms by auto
  then show ?thesis using run by simp
qed

text \<open>Whatever the outcome, the requests of a bulk call are bulk requests of enriched actions.\<close>

lemma bulk_gendata_requests:
  "bulk_gendata es s h pending fs = (r, s', h') \<Longrightarrow>
   \<exists>new. conn_requests s' = conn_requests s @ new
      \<and> (\<forall>a \<in> set (bulk_actions new). a \<in> set pending \<or> enriched es a)
      \<and> logged s' = logged s \<and> clock s' = clock s \<and> clock_reads s' = clock_reads s"
proof (induction fs arbitrary: s h pending)
  case Nil
  then show ?case
  proof (cases "pending = []")
    case True
    with Nil have "s' = s" by simp
    then have "conn_requests s' = conn_requests s @ []" by simp
    then show ?thesis using \<open>s' = s\<close> by (metis bulk_actions.simps(1) empty_iff list.set(1))
  next
    case False
    with Nil have "s' = conn_bulk s pending" by simp
    then show ?thesis by (auto simp add: conn_bulk_simps intro!: exI [of _ "[Bulk pending]"])
  qed
next
  case (Cons f fs)
  show ?case
  proof (cases "gendata_step es h f")
    case (Inl e)
    with Cons.prems have "s' = s" by simp
    then have "conn_requests s' = conn_requests s @ []" by simp
    then show ?thesis using \<open>s' = s\<close> by (metis bulk_actions.simps(1) empty_iff list.set(1))
  next
    case (Inr ah)
    then obtain a h1 where st: "gendata_step es h f = Inr (a, h1)" by (cases ah) simp
    have en: "enriched es a" using gendata_step_enriched [OF st] by (simp add: enriched_def)
    show ?thesis
    proof (cases "pending \<noteq> [] \<and> length pending = chunk_size")
      case True
      with Cons.prems st have "bulk_gendata es (conn_bulk s pending) h1 [a] fs = (r, s', h')"
        by simp
      from Cons.IH [OF this] obtain new where
        q: "conn_requests s' = conn_requests (conn_bulk s pending) @ new"
        and b: "\<forall>x \<in> set (bulk_actions new). x \<in> set [a] \<or> enriched es x"
        and l: "logged s' = logged (conn_bulk s pending)" "clock s' = clock (conn_bulk s pending)"
          "clock_reads s' = clock_reads (conn_bulk s pending)"
        by blast
      have "conn_requests s' = conn_requests s @ (Bulk pending # new)"
        using q by (simp add: conn_bulk_simps)
      moreover have "\<forall>x \<in> set (bulk_actions (Bulk pending # new)). x \<in> set pending \<or> enriched es x"
        using b en by auto
      ultimately show ?thesis using l by (auto simp add: conn_bulk_simps)
    next
      case False
      with Cons.prems st have "bulk_gendata es s h1 (pending @ [a]) fs = (r, s', h')"
        by auto
      from Cons.IH [OF this] obtain new where
        q: "conn_requests s' = conn_requests s @ new"
        and b: "\<forall>x \<in> set (bulk_actions new). x \<in> set (pending @ [a]) \<or> enriched es x"
        and l: "logged s' = logged s" "clock s' = clock s" "clock_reads s' = clock_reads s"
        by blast
      have "\<forall>x \<in> set (bulk_actions new). x \<in> set pending \<or> enriched es x"
        using b en by auto
      then show ?thesis using q l by blast
    qed
  qed
qed

lemma write_doc_keeps: "map_of idxs n \<noteq> None \<Longrightarrow> map_of (write_doc a idxs) n \<noteq> None"
  by (auto simp add: write_doc_def update_conv' split: option.splits)

lemma fold_write_doc_keeps:
  "map_of idxs n \<noteq> None \<Longrightarrow> map_of (fold write_doc acts idxs) n \<noteq> None"
proof (induction acts arbitrary: idxs)
  case Nil
  then show ?case by simp
next
  case (Cons a acts)
  have "map_of (write_doc a idxs) n \<noteq> None" using Cons.prems by (rule write_doc_keeps)
  then have "map_of (fold write_doc acts (write_doc a idxs)) n \<noteq> None" by (rule Cons.IH)
  then show ?case by simp
qed

lemma conn_bulk_keeps:
  "map_of (conn_indices s) n \<noteq> None \<Longrightarrow> map_of (conn_indices (conn_bulk s acts)) n \<noteq> None"
  unfolding conn_bulk_simps by (rule fold_write_doc_keeps)

lemma bulk_gendata_keeps:
  "bulk_gendata es s h pending fs = (r, s', h') \<Longrightarrow>
   map_of (conn_indices s) n \<noteq> None \<Longrightarrow> map_of (conn_indices s') n \<noteq> None"
proof (induction fs arbitrary: s h pending)
  case Nil
  show ?case
  proof (cases "pending = []")
    case True
    with Nil show ?thesis by simp
  next
    case False
    with Nil have "s' = conn_bulk s pending" by simp
    then show ?thesis using Nil.prems(2) conn_bulk_keeps by blast
  qed
next
  case (Cons f fs)
  show ?case
  proof (cases "gendata_step es h f")
    case (Inl e)
    with Cons.prems show ?thesis by simp
  next
    case (Inr ah)
    then obtain a h1 where st: "gendata_step es h f = Inr (a, h1)" by (cases ah) simp
    show ?thesis
    proof (cases "pending \<noteq> [] \<and> length pending = chunk_size")
      case True
      with Cons.prems st have "bulk_gendata es (conn_bulk s pending) h1 [a] fs = (r, s', h')"
        by simp
      moreover have "map_of (conn_indices (conn_bulk s pending)) n \<noteq> None"
        using Cons.prems(2) by (rule conn_bulk_keeps)
      ultimately show ?thesis by (rule Cons.IH)
    next
      case False
      with Cons.prems st have "bulk_gendata es s h1 (pending @ [a]) fs = (r, s', h')"
        by auto
      then show ?thesis using Cons.prems(2) by (rule Cons.IH)
    qed
  qed
qed

section \<open>\<open>upsert_collection_items\<close>\<close>

lemma upsert_present:
  "map_of (conn_indices s) (es_id cid) \<noteq> None \<Longrightarrow>
   upsert_collection_items s h cid items =
     bulk_gendata (es_id cid) (sent (IndicesExists (es_id cid)) s) h [] items"
  by (auto simp add: upsert_collection_items_def has_collection_eq Let_def)

lemma upsert_absent:
  assumes "map_of (conn_indices s) (es_id cid) = None"
  shows "\<exists>s2. upsert_collection_items s h cid items = bulk_gendata (es_id cid) s2 h [] items
      \<and> conn_indices s2 =
          AList.update (es_id cid) \<lparr>idx_body = Some SETTINGS, idx_docs = Map.empty\<rparr> (conn_indices s)
      \<and> conn_requests s2 = conn_requests s @
          [IndicesExists (es_id cid), IndicesExists (es_id cid),
           IndicesCreate (es_id cid) SETTINGS, IndicesExists (es_id cid)]
      \<and> logged s2 = logged s @ [(WARNING, ''Index '' @ es_id cid @ '' does not exist.  Creating'')]
      \<and> clock s2 = clock s \<and> clock_reads s2 = clock_reads s"
proof -
  let ?e = "es_id cid"
  let ?s1 = "log_record WARNING (''Index '' @ ?e @ '' does not exist.  Creating'')
               (sent (IndicesExists ?e) s)"
  have "map_of (conn_indices ?s1) (es_id ?e) = None"
    using assms by (simp add: es_id_idem log_record_simps sent_simps)
  from add_collection_absent [OF this] obtain s2 where
    a: "add_collection ?s1 ?e = (Inr True, s2)"
    and i: "conn_indices s2 =
          AList.update (es_id ?e) \<lparr>idx_body = Some SETTINGS, idx_docs = Map.empty\<rparr> (conn_indices ?s1)"
    and q: "conn_requests s2 = conn_requests ?s1 @
          [IndicesExists (es_id ?e), IndicesCreate (es_id ?e) SETTINGS, IndicesExists (es_id ?e)]"
    and l: "logged s2 = logged ?s1" "clock s2 = clock ?s1" "clock_reads s2 = clock_reads ?s1"
    by blast
  have "upsert_collection_items s h cid items = bulk_gendata ?e s2 h [] items"
    using assms a by (simp add: upsert_collection_items_def has_collection_eq Let_def)
  then show ?thesis using i q l
    by (intro exI [of _ s2]) (simp add: es_id_idem log_record_simps sent_simps)
qed

lemma upsert_items_ok:
  assumes "list_all (is_item h) items"
  shows "\<exists>s' h'. upsert_collection_items s h cid items = (Inr (), s', h')"
proof -
  let ?e = "es_id cid"
  obtain s2 where up: "upsert_collection_items s h cid items = bulk_gendata ?e s2 h [] items"
  proof (cases "map_of (conn_indices s) ?e = None")
    case True
    from upsert_absent [OF True, of h items] show thesis using that by blast
  next
    case False
    from upsert_present [OF False, of h items] show thesis using that by blast
  qed
  from assms obtain acts h' where "gendata_run ?e h items = Inr (acts, h')"
    using gendata_run_items by blast
  from bulk_gendata_ok [OF this, of s2 "[]"] show ?thesis using up by auto
qed

text \<open>What a bulk call that returns has sent and stored.\<close>

lemma bulk_gendata_success:
  assumes "bulk_gendata es s h [] fs = (Inr u, s', h')"
  shows "\<exists>acts new. gendata_run es h fs = Inr (acts, h')
      \<and> conn_requests s' = conn_requests s @ new
      \<and> bulk_actions new = acts
      \<and> conn_indices s' = fold write_doc acts (conn_indices s)"
proof -
  from assms obtain acts where run: "gendata_run es h fs = Inr (acts, h')"
    using bulk_gendata_run by blast
  from bulk_gendata_ok [OF run, of s "[]"] obtain s3 new where
    "bulk_gendata es s h [] fs = (Inr (), s3, h')"
    "conn_requests s3 = conn_requests s @ new" "bulk_actions new = [] @ acts"
    "conn_indices s3 = fold write_doc ([] @ acts) (conn_indices s)"
    by blast
  with assms run show ?thesis by auto
qed

lemma gendata_run_enriched:
  assumes "gendata_run es h fs = Inr (acts, h')"
  shows "length acts = length fs"
    and "\<forall>a \<in> set acts. enriched es a"
    and "\<forall>i < length fs. \<exists>hi. act_source (acts ! i) = Document hi (fs ! i)"
proof -
  from gendata_run_actions [OF assms] have
    l: "list_all2 (\<lambda>f a. enriched es a \<and> (\<exists>hi. act_source a = Document hi f)) fs acts" .
  then show "length acts = length fs" by (simp add: list_all2_conv_all_nth)
  from l show "\<forall>a \<in> set acts. enriched es a"
    by (auto simp add: list_all2_conv_all_nth in_set_conv_nth)
  from l show "\<forall>i < length fs. \<exists>hi. act_source (acts ! i) = Document hi (fs ! i)"
    by (simp add: list_all2_conv_all_nth)
qed

lemma write_doc_same_index:
  assumes "act_index b = e"
  shows "\<exists>ix. map_of (write_doc b idxs) e = Some ix
           \<and> idx_docs ix (act_id b) = Some (act_source b)
           \<and> (\<forall>ix0 k. map_of idxs e = Some ix0 \<longrightarrow> k \<noteq> act_id b \<longrightarrow> idx_docs ix k = idx_docs ix0 k)"
  using assms by (auto simp add: write_doc_def update_conv' split: option.splits)

lemma fold_write_doc_stores:
  assumes "\<forall>a \<in> set acts. enriched e a" and "a \<in> set acts"
  shows "\<exists>ix d. map_of (fold write_doc acts idxs) e = Some ix
           \<and> idx_docs ix (act_id a) = Some d
           \<and> doc_field d ''properties.id'' = Some (act_id a)
           \<and> doc_field d ''id'' = Some (act_id a)"
  using assms
proof (induction acts rule: rev_induct)
  case Nil
  then show ?case by simp
next
  case (snoc b acts)
  have eb: "enriched e b" using snoc.prems(1) by simp
  then have ib: "act_index b = e" by (simp add: enriched_def)
  let ?mid = "fold write_doc acts idxs"
  from write_doc_same_index [OF ib, of ?mid] obtain ix where
    m: "map_of (write_doc b ?mid) e = Some ix"
    and sb: "idx_docs ix (act_id b) = Some (act_source b)"
    and keep: "\<forall>ix0 k. map_of ?mid e = Some ix0 \<longrightarrow> k \<noteq> act_id b \<longrightarrow> idx_docs ix k = idx_docs ix0 k"
    by blast
  have f: "fold write_doc (acts @ [b]) idxs = write_doc b ?mid" by simp
  show ?case
  proof (cases "act_id a = act_id b")
    case True
    have "doc_field (act_source b) ''properties.id'' = Some (act_id a)"
      and "doc_field (act_source b) ''id'' = Some (act_id a)"
      using eb True by (simp_all add: enriched_def)
    then show ?thesis using m sb True f by auto
  next
    case False
    then have "a \<in> set acts" using snoc.prems(2) by auto
    moreover have "\<forall>a \<in> set acts. enriched e a" using snoc.prems(1) by simp
    ultimately obtain ix0 d where
      "map_of ?mid e = Some ix0" "idx_docs ix0 (act_id a) = Some d"
      "doc_field d ''properties.id'' = Some (act_id a)" "doc_field d ''id'' = Some (act_id a)"
      using snoc.IH by blast
    then show ?thesis using m keep False f by auto
  qed
qed

lemma write_doc_body:
  "map_of idxs e = Some ix0 \<Longrightarrow>
   \<exists>ix. map_of (write_doc a idxs) e = Some ix \<and> idx_body ix = idx_body ix0"
  by (auto simp add: write_doc_def update_conv' split: option.splits)

lemma fold_write_doc_body:
  "map_of idxs e = Some ix0 \<Longrightarrow>
   \<exists>ix. map_of (fold write_doc acts idxs) e = Some ix \<and> idx_body ix = idx_body ix0"
proof (induction acts arbitrary: idxs ix0)
  case Nil
  then show ?case by simp
next
  case (Cons a acts)
  from write_doc_body [OF Cons.prems, of a] obtain ix1 where
    "map_of (write_doc a idxs) e = Some ix1" "idx_body ix1 = idx_body ix0" by blast
  with Cons.IH [of "write_doc a idxs" ix1] show ?case by auto
qed

text \<open>
  Claim C5. Whatever the outcome of \<open>upsert_collection_items\<close>, every action it
  sends in a bulk request goes to the index \<open>es_id collection_id\<close>, and in its
  document body \<open>properties.id\<close> and the top-level \<open>id\<close> both are the document's
  key. When the call returns, the actions sent are one per item, in the order of the
  list, the body of the \<open>i\<close>-th is the \<open>i\<close>-th item, and the index holds under
  the key of every action a document with that key as its \<open>properties.id\<close> and its
  \<open>id\<close>.
\<close>

theorem upsert_documents_enriched:
  assumes "upsert_collection_items s h cid items = (r, s', h')"
  shows "\<exists>new. conn_requests s' = conn_requests s @ new
      \<and> (\<forall>a \<in> set (bulk_actions new).
            act_index a = es_id cid
            \<and> doc_field (act_source a) ''properties.id'' = Some (act_id a)
            \<and> doc_field (act_source a) ''id'' = Some (act_id a))
      \<and> (r = Inr () \<longrightarrow>
            length (bulk_actions new) = length items
            \<and> (\<forall>i < length items.
                  \<exists>hi. act_source (bulk_actions new ! i) = Document hi (items ! i))
            \<and> (\<forall>a \<in> set (bulk_actions new).
                  \<exists>ix d. map_of (conn_indices s') (es_id cid) = Some ix
                    \<and> idx_docs ix (act_id a) = Some d
                    \<and> doc_field d ''properties.id'' = Some (act_id a)
                    \<and> doc_field d ''id'' = Some (act_id a)))"
proof -
  let ?e = "es_id cid"
  obtain s2 pre where
    up: "upsert_collection_items s h cid items = bulk_gendata ?e s2 h [] items"
    and q2: "conn_requests s2 = conn_requests s @ pre"
    and pre: "bulk_actions pre = []"
  proof (cases "map_of (conn_indices s) ?e = None")
    case True
    from upsert_absent [OF True, of h items] obtain s2 where
      "upsert_collection_items s h cid items = bulk_gendata ?e s2 h [] items"
      "conn_requests s2 = conn_requests s @
          [IndicesExists ?e, IndicesExists ?e, IndicesCreate ?e SETTINGS, IndicesExists ?e]"
      by blast
    then show thesis using that by simp
  next
    case False
    have "conn_requests (sent (IndicesExists ?e) s) = conn_requests s @ [IndicesExists ?e]"
      by (simp add: sent_simps)
    then show thesis using that upsert_present [OF False, of h items] by simp
  qed
  have b: "bulk_gendata ?e s2 h [] items = (r, s', h')" using up assms by simp
  from bulk_gendata_requests [OF b] obtain new where
    q: "conn_requests s' = conn_requests s2 @ new"
    and en: "\<forall>a \<in> set (bulk_actions new). a \<in> set [] \<or> enriched ?e a"
    by blast
  have q': "conn_requests s' = conn_requests s @ (pre @ new)" using q q2 by simp
  have ba: "bulk_actions (pre @ new) = bulk_actions new"
    using pre by (simp add: bulk_actions_append)
  have en': "\<forall>a \<in> set (bulk_actions (pre @ new)).
            act_index a = ?e
            \<and> doc_field (act_source a) ''properties.id'' = Some (act_id a)
            \<and> doc_field (act_source a) ''id'' = Some (act_id a)"
    using en ba by (simp add: enriched_def)
  have ok: "r = Inr () \<longrightarrow>
            length (bulk_actions (pre @ new)) = length items
            \<and> (\<forall>i < length items.
                  \<exists>hi. act_source (bulk_actions (pre @ new) ! i) = Document hi (items ! i))
            \<and> (\<forall>a \<in> set (bulk_actions (pre @ new)).
                  \<exists>ix d. map_of (conn_indices s') ?e = Some ix
                    \<and> idx_docs ix (act_id a) = Some d
                    \<and> doc_field d ''properties.id'' = Some (act_id a)
                    \<and> doc_field d ''id'' = Some (act_id a))"
  proof
    assume "r = Inr ()"
    with b have "bulk_gendata ?e s2 h [] items = (Inr (), s', h')" by simp
    from bulk_gendata_success [OF this] obtain acts new3 where
      run: "gendata_run ?e h items = Inr (acts, h')"
      and q3: "conn_requests s' = conn_requests s2 @ new3" "bulk_actions new3 = acts"
      and i3: "conn_indices s' = fold write_doc acts (conn_indices s2)"
      by blast
    from q q3 have acts: "bulk_actions new = acts" by simp
    note e = gendata_run_enriched [OF run]
    have "\<forall>a \<in> set acts.
                  \<exists>ix d. map_of (conn_indices s') ?e = Some ix
                    \<and> idx_docs ix (act_id a) = Some d
                    \<and> doc_field d ''properties.id'' = Some (act_id a)
                    \<and> doc_field d ''id'' = Some (act_id a)"
      unfolding i3 using fold_write_doc_stores [OF e(2)] by blast
    then show "length (bulk_actions (pre @ new)) = length items
            \<and> (\<forall>i < length items.
                  \<exists>hi. act_source (bulk_actions (pre @ new) ! i) = Document hi (items ! i))
            \<and> (\<forall>a \<in> set (bulk_actions (pre @ new)).
                  \<exists>ix d. map_of (conn_indices s') ?e = Some ix
                    \<and> idx_docs ix (act_id a) = Some d
                    \<and> doc_field d ''properties.id'' = Some (act_id a)
                    \<and> doc_field d ''id'' = Some (act_id a))"
      using e(1,3) ba acts by simp
  qed
  from q' en' ok show ?thesis by blast
qed

theorem upsert_documents_enriched_witness:
  "\<exists>s' h' new. upsert_collection_items fresh_backend one_item_heap ''A:B'' [PRef 0] = (Inr (), s', h')
      \<and> conn_requests s' = conn_requests fresh_backend @ new
      \<and> length (bulk_actions new) = 1
      \<and> act_index (bulk_actions new ! 0) = ''a-b''
      \<and> doc_field (act_source (bulk_actions new ! 0)) ''properties.id''
           = Some (act_id (bulk_actions new ! 0))
      \<and> doc_field (act_source (bulk_actions new ! 0)) ''id''
           = Some (act_id (bulk_actions new ! 0))"
proof -
  from upsert_items_ok [OF one_item_ok, of fresh_backend "''A:B''"] obtain s' h' where
    u: "upsert_collection_items fresh_backend one_item_heap ''A:B'' [PRef 0] = (Inr (), s', h')"
    by blast
  from upsert_documents_enriched [OF u] obtain new where
    q: "conn_requests s' = conn_requests fresh_backend @ new"
    and en: "\<forall>a \<in> set (bulk_actions new).
            act_index a = es_id ''A:B''
            \<and> doc_field (act_source a) ''properties.id'' = Some (act_id a)
            \<and> doc_field (act_source a) ''id'' = Some (act_id a)"
    and len: "length (bulk_actions new) = length [PRef (0::nat)]"
    by auto
  from len have "bulk_actions new ! 0 \<in> set (bulk_actions new)" by simp
  with en have "act_index (bulk_actions new ! 0) = es_id ''A:B''
            \<and> doc_field (act_source (bulk_actions new ! 0)) ''properties.id''
                 = Some (act_id (bulk_actions new ! 0))
            \<and> doc_field (act_source (bulk_actions new ! 0)) ''id''
                 = Some (act_id (bulk_actions new ! 0))"
    by blast
  then show ?thesis using u q len by (simp add: es_id_examples)
qed

text \<open>
  Claim C6. On a collection that does not exist, \<open>upsert_collection_items\<close> logs
  the warning, then checks, creates and checks the index again, and only then runs
  the bulk call; \<open>has_collection\<close> holds after the call whatever its outcome. When
  the elements of the list are Items, the call returns and has sent one action per
  item, in order, whose body is that item; the index still has the body \<open>SETTINGS\<close>
  and holds a document under the key of each item.
\<close>

theorem upsert_creates_missing_collection:
  assumes "\<not> fst (has_collection s cid)"
  shows "\<exists>r s' h' new. upsert_collection_items s h cid items = (r, s', h')
      \<and> fst (has_collection s' cid)
      \<and> logged s' = logged s @ [(WARNING, ''Index '' @ es_id cid @ '' does not exist.  Creating'')]
      \<and> conn_requests s' = conn_requests s @
            [IndicesExists (es_id cid), IndicesExists (es_id cid),
             IndicesCreate (es_id cid) SETTINGS, IndicesExists (es_id cid)] @ new
      \<and> (list_all (is_item h) items \<longrightarrow>
            r = Inr () \<and> length (bulk_actions new) = length items
            \<and> (\<forall>i < length items.
                  \<exists>hi. act_source (bulk_actions new ! i) = Document hi (items ! i))
            \<and> (\<forall>i < length items.
                  \<exists>ix d. map_of (conn_indices s') (es_id cid) = Some ix
                    \<and> idx_body ix = Some SETTINGS
                    \<and> idx_docs ix (act_id (bulk_actions new ! i)) = Some d))"
proof -
  let ?e = "es_id cid"
  have absent: "map_of (conn_indices s) ?e = None"
    using assms by (simp add: has_collection_eq)
  from upsert_absent [OF absent, of h items] obtain s2 where
    up: "upsert_collection_items s h cid items = bulk_gendata ?e s2 h [] items"
    and i2: "conn_indices s2 =
          AList.update ?e \<lparr>idx_body = Some SETTINGS, idx_docs = Map.empty\<rparr> (conn_indices s)"
    and q2: "conn_requests s2 = conn_requests s @
          [IndicesExists ?e, IndicesExists ?e, IndicesCreate ?e SETTINGS, IndicesExists ?e]"
    and l2: "logged s2 = logged s @ [(WARNING, ''Index '' @ ?e @ '' does not exist.  Creating'')]"
    by blast
  obtain r s' h' where b: "bulk_gendata ?e s2 h [] items = (r, s', h')"
    by (cases "bulk_gendata ?e s2 h [] items") auto
  have m2: "map_of (conn_indices s2) ?e = Some \<lparr>idx_body = Some SETTINGS, idx_docs = Map.empty\<rparr>"
    using i2 by (simp add: update_conv')
  then have "map_of (conn_indices s2) ?e \<noteq> None" by simp
  with b have "map_of (conn_indices s') ?e \<noteq> None" by (rule bulk_gendata_keeps)
  then have has: "fst (has_collection s' cid)" by (simp add: has_collection_eq)
  from bulk_gendata_requests [OF b] obtain new where
    q: "conn_requests s' = conn_requests s2 @ new" and l: "logged s' = logged s2"
    by blast
  have ok: "list_all (is_item h) items \<longrightarrow>
            r = Inr () \<and> length (bulk_actions new) = length items
            \<and> (\<forall>i < length items.
                  \<exists>hi. act_source (bulk_actions new ! i) = Document hi (items ! i))
            \<and> (\<forall>i < length items.
                  \<exists>ix d. map_of (conn_indices s') ?e = Some ix
                    \<and> idx_body ix = Some SETTINGS
                    \<and> idx_docs ix (act_id (bulk_actions new ! i)) = Some d)"
  proof
    assume "list_all (is_item h) items"
    then obtain acts0 h2 where run0: "gendata_run ?e h items = Inr (acts0, h2)"
      using gendata_run_items by blast
    from bulk_gendata_ok [OF run0, of s2 "[]"] b have r: "r = Inr ()" by auto
    with b have "bulk_gendata ?e s2 h [] items = (Inr (), s', h')" by simp
    from bulk_gendata_success [OF this] obtain acts new3 where
      run: "gendata_run ?e h items = Inr (acts, h')"
      and q3: "conn_requests s' = conn_requests s2 @ new3" "bulk_actions new3 = acts"
      and i3: "conn_indices s' = fold write_doc acts (conn_indices s2)"
      by blast
    from q q3 have acts: "bulk_actions new = acts" by simp
    note e = gendata_run_enriched [OF run]
    from fold_write_doc_body [OF m2, of acts] obtain ixb where
      ixb: "map_of (conn_indices s') ?e = Some ixb" "idx_body ixb = Some SETTINGS"
      using i3 by auto
    have "\<forall>i < length items.
                  \<exists>ix d. map_of (conn_indices s') ?e = Some ix
                    \<and> idx_body ix = Some SETTINGS
                    \<and> idx_docs ix (act_id (acts ! i)) = Some d"
    proof (intro allI impI)
      fix i assume "i < length items"
      then have "acts ! i \<in> set acts" using e(1) by simp
      from fold_write_doc_stores [OF e(2) this, of "conn_indices s2"] obtain ix d where
        "map_of (conn_indices s') ?e = Some ix" "idx_docs ix (act_id (acts ! i)) = Some d"
        using i3 by auto
      then show "\<exists>ix d. map_of (conn_indices s') ?e = Some ix
                    \<and> idx_body ix = Some SETTINGS
                    \<and> idx_docs ix (act_id (acts ! i)) = Some d"
        using ixb by auto
    qed
    then show "r = Inr () \<and> length (bulk_actions new) = length items
            \<and> (\<forall>i < length items.
                  \<exists>hi. act_source (bulk_actions new ! i) = Document hi (items ! i))
            \<and> (\<forall>i < length items.
                  \<exists>ix d. map_of (conn_indices s') ?e = Some ix
                    \<and> idx_body ix = Some SETTINGS
                    \<and> idx_docs ix (act_id (bulk_actions new ! i)) = Some d)"
      using r e(1,3) acts by simp
  qed
  from up b has q q2 l l2 ok show ?thesis by auto
qed

theorem upsert_creates_missing_collection_witness:
  "\<not> fst (has_collection fresh_backend ''A:B'')
   \<and> list_all (is_item one_item_heap) [PRef 0]
   \<and> (\<exists>s' h'. upsert_collection_items fresh_backend one_item_heap ''A:B'' [PRef 0] = (Inr (), s', h')
         \<and> fst (has_collection s' ''A:B'')
         \<and> logged s' = [(WARNING, ''Index a-b does not exist.  Creating'')])"
proof -
  have fresh: "\<not> fst (has_collection fresh_backend ''A:B'')"
    by (simp add: has_collection_eq fresh_backend_simps)
  from upsert_creates_missing_collection [OF fresh, of one_item_heap "[PRef 0]"] one_item_ok
  obtain s' h' where
    "upsert_collection_items fresh_backend one_item_heap ''A:B'' [PRef 0] = (Inr (), s', h')"
    "fst (has_collection s' ''A:B'')"
    "logged s' = logged fresh_backend @
       [(WARNING, ''Index '' @ es_id ''A:B'' @ '' does not exist.  Creating'')]"
    by blast
  then show ?thesis using fresh one_item_ok
    by (simp add: es_id_examples fresh_backend_simps)
qed

text \<open>
  Claim C10, as amended. After \<open>upsert_collection_items\<close> has returned, every dict
  of the caller's heap is as it was, or it is the \<open>properties\<close> dict of a feature of
  the list and differs from what it was by an assignment to its key \<open>id\<close>. If
  moreover no feature of the list is the \<open>properties\<close> of a feature of the list, and
  features that share their \<open>properties\<close> have the same \<open>id\<close>, then for every
  feature the \<open>id\<close> in its \<open>properties\<close> is its top-level \<open>id\<close>, which has not
  changed.
\<close>

theorem upsert_sets_properties_id_in_place:
  assumes "upsert_collection_items s h cid items = (Inr (), s', h')"
  shows "(\<forall>a. h' a = h a \<or>
            (\<exists>g \<in> set items. \<exists>v d. getitem h g ''properties'' = Inr (PRef a)
               \<and> h a = Some d \<and> h' a = Some (AList.update ''id'' v d)))
      \<and> ((\<forall>f \<in> set items. \<forall>g \<in> set items. getitem h f ''properties'' \<noteq> Inr g)
          \<and> (\<forall>f \<in> set items. \<forall>g \<in> set items.
                getitem h f ''properties'' = getitem h g ''properties''
                \<longrightarrow> getitem h f ''id'' = getitem h g ''id'')
          \<longrightarrow> (\<forall>f \<in> set items. \<exists>v p.
                getitem h f ''id'' = Inr v
                \<and> getitem h' f ''id'' = Inr v
                \<and> getitem h' f ''properties'' = Inr p
                \<and> getitem h' p ''id'' = Inr v))"
proof -
  let ?e = "es_id cid"
  obtain s2 where up: "upsert_collection_items s h cid items = bulk_gendata ?e s2 h [] items"
  proof (cases "map_of (conn_indices s) ?e = None")
    case True
    from upsert_absent [OF True, of h items] show thesis using that by blast
  next
    case False
    from upsert_present [OF False, of h items] show thesis using that by blast
  qed
  with assms have "bulk_gendata ?e s2 h [] items = (Inr (), s', h')" by simp
  then obtain acts where run: "gendata_run ?e h items = Inr (acts, h')"
    using bulk_gendata_run by blast
  have frame: "\<forall>a. h' a = h a \<or>
            (\<exists>g \<in> set items. \<exists>v d. getitem h g ''properties'' = Inr (PRef a)
               \<and> h a = Some d \<and> h' a = Some (AList.update ''id'' v d))"
    using gendata_run_frame [OF run] by blast
  have val: "(\<forall>f \<in> set items. \<forall>g \<in> set items. getitem h f ''properties'' \<noteq> Inr g)
          \<and> (\<forall>f \<in> set items. \<forall>g \<in> set items.
                getitem h f ''properties'' = getitem h g ''properties''
                \<longrightarrow> getitem h f ''id'' = getitem h g ''id'')
          \<longrightarrow> (\<forall>f \<in> set items. \<exists>v p.
                getitem h f ''id'' = Inr v
                \<and> getitem h' f ''id'' = Inr v
                \<and> getitem h' f ''properties'' = Inr p
                \<and> getitem h' p ''id'' = Inr v)"
  proof (intro impI ballI)
    fix f
    assume H: "(\<forall>f \<in> set items. \<forall>g \<in> set items. getitem h f ''properties'' \<noteq> Inr g)
          \<and> (\<forall>f \<in> set items. \<forall>g \<in> set items.
                getitem h f ''properties'' = getitem h g ''properties''
                \<longrightarrow> getitem h f ''id'' = getitem h g ''id'')"
      and f: "f \<in> set items"
    from H have H1: "\<forall>f \<in> set items. \<forall>g \<in> set items. getitem h f ''properties'' \<noteq> Inr g"
      by blast
    from gendata_run_props [OF run f] obtain pa where
      fp: "getitem h f ''properties'' = Inr (PRef pa)" by blast
    from gendata_run_written [OF run H1 f fp] obtain g v d where
      g: "g \<in> set items" "getitem h g ''properties'' = Inr (PRef pa)"
         "getitem h g ''id'' = Inr v" "h pa = Some d"
         "h' pa = Some (AList.update ''id'' v d)"
      by blast
    have fi: "getitem h f ''id'' = Inr v" using H f g(1,2,3) fp by metis
    from fp obtain fa where fa: "f = PRef fa"
      by (auto simp add: getitem_def split: pyval.splits)
    have "\<not> (\<exists>g \<in> set items. \<exists>v d. getitem h g ''properties'' = Inr (PRef fa)
               \<and> h fa = Some d \<and> h' fa = Some (AList.update ''id'' v d))"
      using H1 f fa by blast
    then have same: "h' fa = h fa" using gendata_run_frame [OF run, of fa] by blast
    have "getitem h' f ''id'' = Inr v" using fi fa same by (simp add: getitem_def)
    moreover have "getitem h' f ''properties'' = Inr (PRef pa)"
      using fp fa same by (simp add: getitem_def)
    moreover have "getitem h' (PRef pa) ''id'' = Inr v"
      using g(5) by (simp add: getitem_def update_conv')
    ultimately show "\<exists>v p. getitem h f ''id'' = Inr v
                \<and> getitem h' f ''id'' = Inr v
                \<and> getitem h' f ''properties'' = Inr p
                \<and> getitem h' p ''id'' = Inr v"
      using fi by blast
  qed
  from frame val show ?thesis by blast
qed

theorem upsert_sets_properties_id_in_place_witness:
  "\<exists>s' h'. upsert_collection_items fresh_backend one_item_heap ''A:B'' [PRef 0] = (Inr (), s', h')
      \<and> getitem h' (PRef 0) ''id'' = Inr (PStr ''x'')
      \<and> getitem h' (PRef 0) ''properties'' = Inr (PRef 1)
      \<and> getitem h' (PRef 1) ''id'' = Inr (PStr ''x'')
      \<and> getitem h' (PRef 1) ''resultTime'' = Inr (PTime 100)"
proof -
  from upsert_items_ok [OF one_item_ok, of fresh_backend "''A:B''"] obtain s' h' where
    u: "upsert_collection_items fresh_backend one_item_heap ''A:B'' [PRef 0] = (Inr (), s', h')"
    by blast
  have p: "getitem one_item_heap (PRef 0) ''properties'' = Inr (PRef 1)"
    and i: "getitem one_item_heap (PRef 0) ''id'' = Inr (PStr ''x'')"
    by (simp_all add: getitem_def one_item_heap_def)
  from upsert_sets_properties_id_in_place [OF u] have
    fr: "\<forall>a. h' a = one_item_heap a \<or>
            (\<exists>g \<in> set [PRef 0]. \<exists>v d. getitem one_item_heap g ''properties'' = Inr (PRef a)
               \<and> one_item_heap a = Some d \<and> h' a = Some (AList.update ''id'' v d))"
    and val: "(\<forall>f \<in> set [PRef 0]. \<forall>g \<in> set [PRef 0]. getitem one_item_heap f ''properties'' \<noteq> Inr g)
          \<and> (\<forall>f \<in> set [PRef 0]. \<forall>g \<in> set [PRef 0].
                getitem one_item_heap f ''properties'' = getitem one_item_heap g ''properties''
                \<longrightarrow> getitem one_item_heap f ''id'' = getitem one_item_heap g ''id'')
          \<longrightarrow> (\<forall>f \<in> set [PRef 0]. \<exists>v p.
                getitem one_item_heap f ''id'' = Inr v
                \<and> getitem h' f ''id'' = Inr v
                \<and> getitem h' f ''properties'' = Inr p
                \<and> getitem h' p ''id'' = Inr v)"
    by blast+
  have "\<exists>v q. getitem one_item_heap (PRef 0) ''id'' = Inr v
                \<and> getitem h' (PRef 0) ''id'' = Inr v
                \<and> getitem h' (PRef 0) ''properties'' = Inr q
                \<and> getitem h' q ''id'' = Inr v"
    using val p by simp
  then obtain v q where
    v: "getitem one_item_heap (PRef 0) ''id'' = Inr v"
       "getitem h' (PRef 0) ''id'' = Inr v"
       "getitem h' (PRef 0) ''properties'' = Inr q"
       "getitem h' q ''id'' = Inr v"
    by blast
  from fr have frame: "h' 1 = one_item_heap 1 \<or>
       (\<exists>g \<in> set [PRef 0]. \<exists>v d. getitem one_item_heap g ''properties'' = Inr (PRef 1)
            \<and> one_item_heap 1 = Some d \<and> h' 1 = Some (AList.update ''id'' v d))"
    by blast
  from fr have same: "h' 0 = one_item_heap 0 \<or>
       (\<exists>g \<in> set [PRef 0]. \<exists>v d. getitem one_item_heap g ''properties'' = Inr (PRef 0)
            \<and> one_item_heap 0 = Some d \<and> h' 0 = Some (AList.update ''id'' v d))"
    by blast
  have "h' 0 = one_item_heap 0" using same p by simp
  then have q: "q = PRef 1" using v(3) by (simp add: getitem_def one_item_heap_def)
  have "v = PStr ''x''" using v(1) i by simp
  moreover have "getitem h' (PRef 1) ''resultTime'' = Inr (PTime 100)"
    using frame by (auto simp add: getitem_def one_item_heap_def update_conv')
  ultimately show ?thesis using u v q by auto
qed

text \<open>
  The claim as stated fails when two features share their \<open>properties\<close>: after the
  call the first feature still has the \<open>id\<close> \<open>a\<close>, and the \<open>id\<close> in its
  \<open>properties\<close> is \<open>b\<close>.
\<close>

theorem upsert_sets_properties_id_in_place_counterexample:
  "fst (upsert_collection_items fresh_backend shared_heap ''c'' [PRef 0, PRef 1]) = Inr ()
   \<and> getitem (snd (snd (upsert_collection_items fresh_backend shared_heap ''c'' [PRef 0, PRef 1])))
        (PRef 0) ''id'' = Inr (PStr ''a'')
   \<and> getitem (snd (snd (upsert_collection_items fresh_backend shared_heap ''c'' [PRef 0, PRef 1])))
        (PRef 0) ''properties'' = Inr (PRef 2)
   \<and> getitem (snd (snd (upsert_collection_items fresh_backend shared_heap ''c'' [PRef 0, PRef 1])))
        (PRef 2) ''id'' = Inr (PStr ''b'')"
  by (simp add: upsert_collection_items_def has_collection_def indices_exists_def add_collection_def
       indices_create_def sent_def log_record_def fresh_backend_def shared_heap_def Let_def
       gendata_step_def getitem_def setitem_def chunk_size_def conn_bulk_def)

text \<open>
  Claim C2. \<open>delete_collection_item\<close> sends its delete request to the index named
  \<open>collection_id\<close> as given, not to \<open>es_id collection_id\<close>, which is the index
  \<open>has_collection\<close> asks for. After an item has been
  written to the collection \<open>A:B\<close>, which is the index \<open>a-b\<close>, deleting it from the
  collection \<open>A:B\<close> fails and leaves it in place, while deleting it from \<open>a-b\<close>
  succeeds.
\<close>

theorem delete_collection_item_raw_index:
  "conn_requests (snd (delete_collection_item s cid iid)) = conn_requests s @ [Delete cid iid]
   \<and> conn_requests (snd (has_collection s cid)) = conn_requests s @ [IndicesExists (es_id cid)]
   \<and> es_id ''A:B'' = ''a-b''
   \<and> (case upsert_collection_items fresh_backend one_item_heap ''A:B'' [PRef 0] of
         (r, s1, h1) \<Rightarrow>
           r = Inr ()
           \<and> map fst (conn_indices s1) = [''a-b'']
           \<and> fst (delete_collection_item s1 ''A:B'' ''x'')
               = Inl (RuntimeError ''Item deletion failed: index_not_found_exception''
                        (Some (NotFoundError ''index_not_found_exception'')))
           \<and> conn_indices (snd (delete_collection_item s1 ''A:B'' ''x'')) = conn_indices s1
           \<and> fst (delete_collection_item s1 ''a-b'' ''x'') = Inr True)"
proof -
  have "conn_requests (snd (delete_collection_item s cid iid)) = conn_requests s @ [Delete cid iid]"
    by (auto simp add: delete_collection_item_def conn_delete_def sent_def log_record_def Let_def
          split: option.splits)
  moreover have
    "conn_requests (snd (has_collection s cid)) = conn_requests s @ [IndicesExists (es_id cid)]"
    by (simp add: has_collection_eq sent_simps)
  moreover have "es_id ''A:B'' = ''a-b''" by code_simp
  moreover have "case upsert_collection_items fresh_backend one_item_heap ''A:B'' [PRef 0] of
         (r, s1, h1) \<Rightarrow>
           r = Inr ()
           \<and> map fst (conn_indices s1) = [''a-b'']
           \<and> fst (delete_collection_item s1 ''A:B'' ''x'')
               = Inl (RuntimeError ''Item deletion failed: index_not_found_exception''
                        (Some (NotFoundError ''index_not_found_exception'')))
           \<and> conn_indices (snd (delete_collection_item s1 ''A:B'' ''x'')) = conn_indices s1
           \<and> fst (delete_collection_item s1 ''a-b'' ''x'') = Inr True"
    by (simp add: upsert_collection_items_def has_collection_def indices_exists_def add_collection_def
       indices_create_def sent_def log_record_def fresh_backend_def one_item_heap_def Let_def
       gendata_step_def getitem_def setitem_def chunk_size_def conn_bulk_def es_id_examples
       delete_collection_item_def conn_delete_def write_doc_def)
  ultimately show ?thesis by blast
qed

section \<open>Retention: \<open>delete_collections_by_retention\<close>\<close>

lemma purge_idem: "purge q (purge q ix) = purge q ix"
  by (auto simp add: purge_def fun_eq_iff split: option.splits)

lemma purge_simps:
  "idx_body (purge q ix) = idx_body ix"
  "idx_docs (purge q ix) k =
     (case idx_docs ix k of None \<Rightarrow> None | Some d \<Rightarrow> if matches d q then None else Some d)"
  by (simp_all add: purge_def)

lemma conn_delete_by_query_present:
  assumes "map_of (conn_indices s) name = Some ix"
  shows "\<exists>s1. conn_delete_by_query s name q = (Inr (), s1)
      \<and> conn_indices s1 = AList.update name (purge q ix) (conn_indices s)
      \<and> conn_requests s1 = conn_requests s @ [DeleteByQuery name q]
      \<and> logged s1 = logged s \<and> clock s1 = clock s \<and> clock_reads s1 = clock_reads s"
  using assms by (simp add: conn_delete_by_query_def sent_def)

lemma delete_by_query_all_result:
  "set names \<subseteq> fst ` set (conn_indices s) \<Longrightarrow>
   \<exists>s'. delete_by_query_all q s names = (Inr (), s')
      \<and> conn_requests s' = conn_requests s @ map (\<lambda>n. DeleteByQuery n q) names
      \<and> map fst (conn_indices s') = map fst (conn_indices s)
      \<and> (\<forall>n. map_of (conn_indices s') n =
               (if n \<in> set names then map_option (purge q) (map_of (conn_indices s) n)
                else map_of (conn_indices s) n))
      \<and> logged s' = logged s \<and> clock s' = clock s \<and> clock_reads s' = clock_reads s"
proof (induction names arbitrary: s)
  case Nil
  then show ?case by simp
next
  case (Cons name names)
  then have "name \<in> fst ` set (conn_indices s)" by simp
  then obtain ix where ix: "map_of (conn_indices s) name = Some ix"
    by (metis map_of_eq_None_iff not_None_eq)
  from conn_delete_by_query_present [OF ix, of q] obtain s1 where
    d: "conn_delete_by_query s name q = (Inr (), s1)"
    and i1: "conn_indices s1 = AList.update name (purge q ix) (conn_indices s)"
    and q1: "conn_requests s1 = conn_requests s @ [DeleteByQuery name q]"
    and l1: "logged s1 = logged s" "clock s1 = clock s" "clock_reads s1 = clock_reads s"
    by blast
  have keys: "map fst (conn_indices s1) = map fst (conn_indices s)"
    using i1 \<open>name \<in> fst ` set (conn_indices s)\<close> by (simp add: update_keys)
  then have "set names \<subseteq> fst ` set (conn_indices s1)"
    using Cons.prems by (metis list.set_map set_subset_Cons subset_trans)
  from Cons.IH [OF this] obtain s' where
    r: "delete_by_query_all q s1 names = (Inr (), s')"
    and q': "conn_requests s' = conn_requests s1 @ map (\<lambda>n. DeleteByQuery n q) names"
    and k': "map fst (conn_indices s') = map fst (conn_indices s1)"
    and m': "\<forall>n. map_of (conn_indices s') n =
               (if n \<in> set names then map_option (purge q) (map_of (conn_indices s1) n)
                else map_of (conn_indices s1) n)"
    and l': "logged s' = logged s1" "clock s' = clock s1" "clock_reads s' = clock_reads s1"
    by blast
  have m1: "\<And>n. map_of (conn_indices s1) n = (if n = name then Some (purge q ix) else map_of (conn_indices s) n)"
    using i1 by (simp add: update_conv')
  have "\<forall>n. map_of (conn_indices s') n =
               (if n \<in> set (name # names) then map_option (purge q) (map_of (conn_indices s) n)
                else map_of (conn_indices s) n)"
    using m' m1 ix by (simp add: purge_idem)
  moreover have "delete_by_query_all q s (name # names) = (Inr (), s')"
    using d r by simp
  ultimately show ?case using q' q1 k' keys l' l1 by simp
qed

text \<open>
  Claim C1. \<open>delete_collections_by_retention\<close> returns; it reads the clock once; it
  asks for all indices and then sends one delete-by-query request per index, each with
  the same query, whose threshold is that one reading minus \<open>days\<close> days. The set of
  indices is as it was, and in every index exactly the documents go whose
  \<open>properties.resultTime\<close> or \<open>properties.pubTime\<close> is a timestamp not later than
  the threshold.
\<close>

theorem retention_purges_every_index:
  "\<exists>s'. delete_collections_by_retention s days = (Inr (), s')
     \<and> clock_reads s' = Suc (clock_reads s)
     \<and> conn_requests s' = conn_requests s @
          IndicesGet ''*'' #
          map (\<lambda>n. DeleteByQuery n (query_by_date (clock s (clock_reads s) - days * 86400)))
            (map fst (conn_indices s))
     \<and> map fst (conn_indices s') = map fst (conn_indices s)
     \<and> (\<forall>name ix. map_of (conn_indices s) name = Some ix \<longrightarrow>
          (\<exists>ix'. map_of (conn_indices s') name = Some ix'
             \<and> idx_body ix' = idx_body ix
             \<and> (\<forall>k. idx_docs ix' k =
                  (case idx_docs ix k of
                     None \<Rightarrow> None
                   | Some d \<Rightarrow>
                       if (\<exists>t. doc_field d ''properties.resultTime'' = Some (PTime t)
                               \<and> t \<le> clock s (clock_reads s) - days * 86400)
                          \<or> (\<exists>t. doc_field d ''properties.pubTime'' = Some (PTime t)
                               \<and> t \<le> clock s (clock_reads s) - days * 86400)
                       then None else Some d))))"
proof -
  let ?before = "clock s (clock_reads s) - days * 86400"
  let ?q = "query_by_date ?before"
  let ?s2 = "(sent (IndicesGet ''*'') s)\<lparr>clock_reads := Suc (clock_reads s)\<rparr>"
  have unfold: "delete_collections_by_retention s days =
      delete_by_query_all ?q ?s2 (map fst (conn_indices s))"
    by (simp add: delete_collections_by_retention_def indices_get_all_def datetime_days_ago_def
          sent_def)
  have "set (map fst (conn_indices s)) \<subseteq> fst ` set (conn_indices ?s2)"
    by (simp add: sent_def)
  from delete_by_query_all_result [OF this, of ?q] obtain s' where
    r: "delete_by_query_all ?q ?s2 (map fst (conn_indices s)) = (Inr (), s')"
    and q': "conn_requests s' = conn_requests ?s2 @ map (\<lambda>n. DeleteByQuery n ?q) (map fst (conn_indices s))"
    and k': "map fst (conn_indices s') = map fst (conn_indices ?s2)"
    and m': "\<forall>n. map_of (conn_indices s') n =
               (if n \<in> set (map fst (conn_indices s)) then map_option (purge ?q) (map_of (conn_indices ?s2) n)
                else map_of (conn_indices ?s2) n)"
    and l': "clock_reads s' = clock_reads ?s2"
    by blast
  have m: "\<And>d. matches d ?q \<longleftrightarrow>
        (\<exists>t. doc_field d ''properties.resultTime'' = Some (PTime t) \<and> t \<le> ?before)
        \<or> (\<exists>t. doc_field d ''properties.pubTime'' = Some (PTime t) \<and> t \<le> ?before)"
    by (auto simp add: query_by_date_def split: option.splits pyval.splits)
  have docs: "\<forall>name ix. map_of (conn_indices s) name = Some ix \<longrightarrow>
          (\<exists>ix'. map_of (conn_indices s') name = Some ix'
             \<and> idx_body ix' = idx_body ix
             \<and> (\<forall>k. idx_docs ix' k =
                  (case idx_docs ix k of
                     None \<Rightarrow> None
                   | Some d \<Rightarrow>
                       if (\<exists>t. doc_field d ''properties.resultTime'' = Some (PTime t) \<and> t \<le> ?before)
                          \<or> (\<exists>t. doc_field d ''properties.pubTime'' = Some (PTime t) \<and> t \<le> ?before)
                       then None else Some d)))"
  proof (intro allI impI)
    fix name ix
    assume ix: "map_of (conn_indices s) name = Some ix"
    then have "name \<in> set (map fst (conn_indices s))"
      by (metis map_of_eq_None_iff option.distinct(1) list.set_map)
    then have "map_of (conn_indices s') name = Some (purge ?q ix)"
      using m' ix by (simp add: sent_def)
    moreover have "\<forall>k. idx_docs (purge ?q ix) k =
                  (case idx_docs ix k of
                     None \<Rightarrow> None
                   | Some d \<Rightarrow>
                       if (\<exists>t. doc_field d ''properties.resultTime'' = Some (PTime t) \<and> t \<le> ?before)
                          \<or> (\<exists>t. doc_field d ''properties.pubTime'' = Some (PTime t) \<and> t \<le> ?before)
                       then None else Some d)"
      unfolding purge_simps m by simp
    ultimately show "\<exists>ix'. map_of (conn_indices s') name = Some ix'
             \<and> idx_body ix' = idx_body ix
             \<and> (\<forall>k. idx_docs ix' k =
                  (case idx_docs ix k of
                     None \<Rightarrow> None
                   | Some d \<Rightarrow>
                       if (\<exists>t. doc_field d ''properties.resultTime'' = Some (PTime t) \<and> t \<le> ?before)
                          \<or> (\<exists>t. doc_field d ''properties.pubTime'' = Some (PTime t) \<and> t \<le> ?before)
                       then None else Some d))"
      using purge_simps(1) by blast
  qed
  have "conn_requests s' = conn_requests s @
          IndicesGet ''*'' # map (\<lambda>n. DeleteByQuery n ?q) (map fst (conn_indices s))"
    using q' by (simp add: sent_def)
  moreover have "map fst (conn_indices s') = map fst (conn_indices s)"
    using k' by (simp add: sent_def)
  moreover have "clock_reads s' = Suc (clock_reads s)" using l' by simp
  ultimately show ?thesis using unfold r docs by auto
qed

theorem retention_purges_every_index_witness:
  "\<exists>s' ix'. delete_collections_by_retention retention_backend 10 = (Inr (), s')
     \<and> map_of (conn_indices s') ''obs'' = Some ix'
     \<and> idx_docs ix' (PStr ''age0'') = Some (Document retention_heap (PRef 0))
     \<and> idx_docs ix' (PStr ''age5'') = Some (Document retention_heap (PRef 2))
     \<and> idx_docs ix' (PStr ''age10'') = None
     \<and> idx_docs ix' (PStr ''age15'') = None"
proof -
  from retention_purges_every_index [of retention_backend 10] obtain s' where
    r: "delete_collections_by_retention retention_backend 10 = (Inr (), s')"
    and d: "\<forall>name ix. map_of (conn_indices retention_backend) name = Some ix \<longrightarrow>
          (\<exists>ix'. map_of (conn_indices s') name = Some ix'
             \<and> idx_body ix' = idx_body ix
             \<and> (\<forall>k. idx_docs ix' k =
                  (case idx_docs ix k of
                     None \<Rightarrow> None
                   | Some d \<Rightarrow>
                       if (\<exists>t. doc_field d ''properties.resultTime'' = Some (PTime t)
                               \<and> t \<le> clock retention_backend (clock_reads retention_backend) - 10 * 86400)
                          \<or> (\<exists>t. doc_field d ''properties.pubTime'' = Some (PTime t)
                               \<and> t \<le> clock retention_backend (clock_reads retention_backend) - 10 * 86400)
                       then None else Some d)))"
    by blast
  have "map_of (conn_indices retention_backend) ''obs'' = Some retention_index"
    by (simp add: retention_backend_def)
  with d obtain ix' where
    m: "map_of (conn_indices s') ''obs'' = Some ix'"
    and k: "\<forall>k. idx_docs ix' k =
                  (case idx_docs retention_index k of
                     None \<Rightarrow> None
                   | Some d \<Rightarrow>
                       if (\<exists>t. doc_field d ''properties.resultTime'' = Some (PTime t)
                               \<and> t \<le> clock retention_backend (clock_reads retention_backend) - 10 * 86400)
                          \<or> (\<exists>t. doc_field d ''properties.pubTime'' = Some (PTime t)
                               \<and> t \<le> clock retention_backend (clock_reads retention_backend) - 10 * 86400)
                       then None else Some d)"
    by blast
  have "idx_docs ix' (PStr ''age0'') = Some (Document retention_heap (PRef 0))"
    unfolding k [rule_format]
    by (simp add: retention_index_def retention_backend_def retention_heap_def)
  moreover have "idx_docs ix' (PStr ''age5'') = Some (Document retention_heap (PRef 2))"
    unfolding k [rule_format]
    by (simp add: retention_index_def retention_backend_def retention_heap_def)
  moreover have "idx_docs ix' (PStr ''age10'') = None"
    unfolding k [rule_format]
    by (simp add: retention_index_def retention_backend_def retention_heap_def)
  moreover have "idx_docs ix' (PStr ''age15'') = None"
    unfolding k [rule_format]
    by (simp add: retention_index_def retention_backend_def retention_heap_def)
  ultimately show ?thesis using r m by blast
qed

section \<open>The check of the required variables in \<open>pygeobox.env\<close>\<close>

lemma set_none_names: "set (none_names ns) = {k. (k, ONone) \<in> set ns}"
  by (auto simp add: none_names_def)

lemma set_update_subset: "set (AList.update k v ns) \<subseteq> insert (k, v) (set ns)"
  by (induction ns) auto

lemma none_names_update:
  "set (none_names (AList.update k v ns)) \<subseteq> insert k (set (none_names ns))"
  using set_update_subset [of k v ns] by (auto simp add: set_none_names)

lemma none_names_update_val:
  "v \<noteq> ONone \<Longrightarrow> set (none_names (AList.update k v ns)) \<subseteq> set (none_names ns)"
  using set_update_subset [of k v ns] by (auto simp add: set_none_names)

lemma check_required_skip:
  assumes "[k. (k, v) \<leftarrow> AList.update ''rev'' ONone ns, v = ONone \<and> OStr k \<in> set required] = []"
  shows "check_required required ns (ONone # rest) =
         check_required required
           (AList.update ''env_var'' (OList []) (AList.update ''rev'' ONone ns)) rest"
  unfolding check_required.simps Let_def
  by (simp only: assms list.case list.map) simp

lemma check_required_other:
  "rev_v \<noteq> ONone \<Longrightarrow>
   check_required required ns (rev_v # rest) =
   check_required required (AList.update ''rev'' rev_v ns) rest"
  by (simp add: Let_def)

lemma check_required_nothing_missing:
  assumes "\<forall>k \<in> N. OStr k \<notin> set required" and "''rev'' \<in> N"
  shows "set (none_names ns) \<subseteq> N \<Longrightarrow>
         map_of (check_required required ns rs) ''missing_environment_variables''
           = map_of ns ''missing_environment_variables''"
proof (induction rs arbitrary: ns)
  case Nil
  then show ?case by simp
next
  case (Cons rev_v rest)
  let ?ns1 = "AList.update ''rev'' rev_v ns"
  have n1: "set (none_names ?ns1) \<subseteq> N"
    using none_names_update [of "''rev''" rev_v ns] Cons.prems assms(2) by auto
  have m1: "map_of ?ns1 ''missing_environment_variables'' = map_of ns ''missing_environment_variables''"
    by (simp add: update_conv')
  show ?case
  proof (cases "rev_v = ONone")
    case False
    then show ?thesis using Cons.IH [OF n1] m1 by (simp add: check_required_other del: check_required.simps)
  next
    case True
    let ?ns1' = "AList.update ''rev'' ONone ns"
    have none: "\<And>k v. (k, v) \<in> set ?ns1' \<Longrightarrow> \<not> (v = ONone \<and> OStr k \<in> set required)"
    proof
      fix k v assume kv: "(k, v) \<in> set ?ns1'" and c: "v = ONone \<and> OStr k \<in> set required"
      then have "k \<in> set (none_names ?ns1')" by (simp add: set_none_names)
      then have "k \<in> N" using n1 True by blast
      then show False using assms(1) c by blast
    qed
    have ev: "[k. (k, v) \<leftarrow> ?ns1', v = ONone \<and> OStr k \<in> set required] = []"
      using none by (induction ?ns1') auto
    let ?ns2 = "AList.update ''env_var'' (OList []) ?ns1'"
    have "set (none_names ?ns2) \<subseteq> N"
      using none_names_update_val [of "OList []" "''env_var''" ?ns1'] n1 True by auto
    from Cons.IH [OF this] have
      "map_of (check_required required ?ns2 rest) ''missing_environment_variables''
         = map_of ns ''missing_environment_variables''"
      by (simp add: update_conv')
    then show ?thesis unfolding True check_required_skip [OF ev] .
  qed
qed

lemma import_env_nothing_missing:
  assumes d: "env ''PYGEOBOX_DATADIR'' = Some datadir"
    and b: "env ''PYGEOBOX_API_BACKEND_URL'' = Some backend_url"
    and r: "retention_days py_int (env ''PYGEOBOX_STORAGE_DATA_RETENTION_DAYS'') = Inr days"
    and n: "\<forall>k \<in> set (''rev'' # none_names (module_bindings env datadir backend_url days)).
              env ''PYGEOBOX_DOCKER_API_URL'' \<noteq> Some k
              \<and> env ''PYGEOBOX_API_TYPE'' \<noteq> Some k
              \<and> env ''PYGEOBOX_URL'' \<noteq> Some k"
  shows "\<exists>ns. import_env py_int env = Inr ns
           \<and> map_of ns ''missing_environment_variables'' = Some (OList [])"
proof -
  let ?required = "[OPath [datadir],
                    environ_get env ''PYGEOBOX_DOCKER_API_URL'',
                    environ_get env ''PYGEOBOX_API_TYPE'',
                    environ_get env ''PYGEOBOX_URL'']"
  let ?mb = "module_bindings env datadir backend_url days"
  let ?ns = "?mb @ [(''missing_environment_variables'', OList []),
                    (''required_environment_variables'', OList ?required)]"
  let ?N = "set (''rev'' # none_names ?mb)"
  have req: "\<forall>k \<in> ?N. OStr k \<notin> set ?required"
    using n by (auto simp add: environ_get_def split: option.splits)
  have "set (none_names ?ns) \<subseteq> ?N"
    by (auto simp add: set_none_names)
  from check_required_nothing_missing [OF req _ this, of ?required]
  have "map_of (check_required ?required ?ns ?required) ''missing_environment_variables''
          = map_of ?ns ''missing_environment_variables''"
    by simp
  moreover have "map_of ?mb ''missing_environment_variables'' = None"
    by (simp add: module_bindings_def module_header_def)
  ultimately have
    "map_of (check_required ?required ?ns ?required) ''missing_environment_variables''
       = Some (OList [])"
    by (simp add: map_add_def)
  then show ?thesis
    using d b r by (simp add: import_env_def Let_def del: check_required.simps)
qed

lemma retention_days_error:
  "retention_days py_int v = Inl e \<Longrightarrow> \<exists>m. e = ValueError m"
  by (auto simp add: retention_days_def split: option.splits)

lemma bare_env_simps:
  "bare_env ''PYGEOBOX_DATADIR'' = Some ''/data''"
  "bare_env ''PYGEOBOX_API_BACKEND_URL'' = Some ''http://localhost:9200/''"
  "bare_env ''PYGEOBOX_STORAGE_DATA_RETENTION_DAYS'' = None"
  "bare_env ''PYGEOBOX_DOCKER_API_URL'' = None"
  "bare_env ''PYGEOBOX_API_TYPE'' = None"
  "bare_env ''PYGEOBOX_URL'' = None"
  by (simp_all add: bare_env_def)

text \<open>
  Claim C9, as amended. When \<open>PYGEOBOX_DATADIR\<close> is set and
  \<open>PYGEOBOX_API_BACKEND_URL\<close> is not, the import ends with the \<open>AttributeError\<close>
  of \<open>None.rstrip\<close>. When both are set and the retention days are readable, and no
  value of \<open>PYGEOBOX_DOCKER_API_URL\<close>, \<open>PYGEOBOX_API_TYPE\<close> or \<open>PYGEOBOX_URL\<close> is
  the name of a module-level variable bound to \<open>None\<close>, the import succeeds with an
  empty \<open>missing_environment_variables\<close>, whether or not those three are set. The
  error \<open>Environment variables not set!\<close> is raised only when one of these values is
  such a name.
\<close>

theorem env_import_required_check:
  "(env ''PYGEOBOX_DATADIR'' \<noteq> None \<and> env ''PYGEOBOX_API_BACKEND_URL'' = None \<longrightarrow>
      import_env py_int env =
        Inl (AttributeError
               (quoted ''NoneType'' @ '' object has no attribute '' @ quoted ''rstrip'')))
   \<and> (\<forall>datadir backend_url days.
         env ''PYGEOBOX_DATADIR'' = Some datadir
         \<and> env ''PYGEOBOX_API_BACKEND_URL'' = Some backend_url
         \<and> retention_days py_int (env ''PYGEOBOX_STORAGE_DATA_RETENTION_DAYS'') = Inr days
         \<and> (\<forall>k \<in> set (''rev'' # none_names (module_bindings env datadir backend_url days)).
               env ''PYGEOBOX_DOCKER_API_URL'' \<noteq> Some k
               \<and> env ''PYGEOBOX_API_TYPE'' \<noteq> Some k
               \<and> env ''PYGEOBOX_URL'' \<noteq> Some k)
         \<longrightarrow> (\<exists>ns. import_env py_int env = Inr ns
                 \<and> map_of ns ''missing_environment_variables'' = Some (OList [])))
   \<and> (\<forall>msg. import_env py_int env =
               Inl (EnvironmentError (''Environment variables not set! = '' @ msg))
         \<longrightarrow> (\<exists>datadir backend_url days k.
                 env ''PYGEOBOX_DATADIR'' = Some datadir
                 \<and> env ''PYGEOBOX_API_BACKEND_URL'' = Some backend_url
                 \<and> retention_days py_int (env ''PYGEOBOX_STORAGE_DATA_RETENTION_DAYS'') = Inr days
                 \<and> k \<in> set (''rev'' # none_names (module_bindings env datadir backend_url days))
                 \<and> (env ''PYGEOBOX_DOCKER_API_URL'' = Some k
                      \<or> env ''PYGEOBOX_API_TYPE'' = Some k
                      \<or> env ''PYGEOBOX_URL'' = Some k)))"
proof (intro conjI allI impI)
  assume "env ''PYGEOBOX_DATADIR'' \<noteq> None \<and> env ''PYGEOBOX_API_BACKEND_URL'' = None"
  then show "import_env py_int env =
        Inl (AttributeError
               (quoted ''NoneType'' @ '' object has no attribute '' @ quoted ''rstrip''))"
    by (auto simp add: import_env_def)
next
  fix datadir backend_url days
  assume "env ''PYGEOBOX_DATADIR'' = Some datadir
         \<and> env ''PYGEOBOX_API_BACKEND_URL'' = Some backend_url
         \<and> retention_days py_int (env ''PYGEOBOX_STORAGE_DATA_RETENTION_DAYS'') = Inr days
         \<and> (\<forall>k \<in> set (''rev'' # none_names (module_bindings env datadir backend_url days)).
               env ''PYGEOBOX_DOCKER_API_URL'' \<noteq> Some k
               \<and> env ''PYGEOBOX_API_TYPE'' \<noteq> Some k
               \<and> env ''PYGEOBOX_URL'' \<noteq> Some k)"
  then show "\<exists>ns. import_env py_int env = Inr ns
                 \<and> map_of ns ''missing_environment_variables'' = Some (OList [])"
    using import_env_nothing_missing by blast
next
  fix msg
  assume raised: "import_env py_int env =
               Inl (EnvironmentError (''Environment variables not set! = '' @ msg))"
  obtain datadir where d: "env ''PYGEOBOX_DATADIR'' = Some datadir"
    using raised by (cases "env ''PYGEOBOX_DATADIR''") (auto simp add: import_env_def)
  obtain backend_url where b: "env ''PYGEOBOX_API_BACKEND_URL'' = Some backend_url"
    using raised d by (cases "env ''PYGEOBOX_API_BACKEND_URL''") (auto simp add: import_env_def)
  obtain days where
    r: "retention_days py_int (env ''PYGEOBOX_STORAGE_DATA_RETENTION_DAYS'') = Inr days"
  proof (cases "retention_days py_int (env ''PYGEOBOX_STORAGE_DATA_RETENTION_DAYS'')")
    case (Inl e)
    then obtain m where "e = ValueError m" using retention_days_error by blast
    then show ?thesis using raised d b Inl by (simp add: import_env_def)
  next
    case (Inr days)
    then show ?thesis using that by blast
  qed
  have "\<not> (\<forall>k \<in> set (''rev'' # none_names (module_bindings env datadir backend_url days)).
               env ''PYGEOBOX_DOCKER_API_URL'' \<noteq> Some k
               \<and> env ''PYGEOBOX_API_TYPE'' \<noteq> Some k
               \<and> env ''PYGEOBOX_URL'' \<noteq> Some k)"
  proof
    assume "\<forall>k \<in> set (''rev'' # none_names (module_bindings env datadir backend_url days)).
               env ''PYGEOBOX_DOCKER_API_URL'' \<noteq> Some k
               \<and> env ''PYGEOBOX_API_TYPE'' \<noteq> Some k
               \<and> env ''PYGEOBOX_URL'' \<noteq> Some k"
    from import_env_nothing_missing [OF d b r this] show False using raised by simp
  qed
  then show "\<exists>datadir backend_url days k.
                 env ''PYGEOBOX_DATADIR'' = Some datadir
                 \<and> env ''PYGEOBOX_API_BACKEND_URL'' = Some backend_url
                 \<and> retention_days py_int (env ''PYGEOBOX_STORAGE_DATA_RETENTION_DAYS'') = Inr days
                 \<and> k \<in> set (''rev'' # none_names (module_bindings env datadir backend_url days))
                 \<and> (env ''PYGEOBOX_DOCKER_API_URL'' = Some k
                      \<or> env ''PYGEOBOX_API_TYPE'' = Some k
                      \<or> env ''PYGEOBOX_URL'' = Some k)"
    using d b r by blast
qed

theorem env_import_required_check_witness:
  "bare_env ''PYGEOBOX_DOCKER_API_URL'' = None
   \<and> bare_env ''PYGEOBOX_API_TYPE'' = None
   \<and> bare_env ''PYGEOBOX_URL'' = None
   \<and> (\<exists>ns. import_env decimal bare_env = Inr ns
         \<and> map_of ns ''missing_environment_variables'' = Some (OList []))"
proof -
  have r: "retention_days decimal (bare_env ''PYGEOBOX_STORAGE_DATA_RETENTION_DAYS'') = Inr ONone"
    by (simp add: retention_days_def bare_env_simps)
  show ?thesis
    using env_import_required_check [of bare_env decimal] r
    by (simp add: bare_env_simps)
qed

text \<open>
  The claim as stated fails in two environments: with \<open>PYGEOBOX_URL\<close> unset and
  \<open>PYGEOBOX_API_TYPE\<close> set to \<open>URL\<close> the error \<open>Environment variables not set!\<close>
  is raised, naming \<open>URL\<close>; and with nothing set the import ends with the
  \<open>EnvironmentError\<close> of the data directory, not with the \<open>AttributeError\<close>.
\<close>

theorem env_import_required_check_counterexample:
  "example_env ''PYGEOBOX_URL'' = None
   \<and> import_env decimal example_env =
       Inl (EnvironmentError (''Environment variables not set! = ['' @ quoted ''URL'' @ '']''))
   \<and> import_env decimal empty_env =
       Inl (EnvironmentError ''Configuration filepaths do not exist!'')"
  by (simp add: import_env_def example_env_def empty_env_def retention_days_def
        module_bindings_def module_header_def environ_get_def environ_get_default_def
        append_missing_def repr_list_def rstrip_def quoted_def)

end
